theory Spec2Isabelle
  imports Main
begin

section \<open>Python values and strings\<close>

text \<open>
  The module under study is \<^verbatim>\<open>pygeobox/api/backend/sensorthings.py\<close>, the class
  \<^verbatim>\<open>SensorthingsBackend\<close>. A Python \<^verbatim>\<open>str\<close> is a \<^typ>\<open>string\<close>; a \<^typ>\<open>char\<close>
  stands for the code point of the same number, so the strings of the model are the
  Python strings over the code points below 256.
\<close>

text \<open>
  The Python objects the backend handles: what \<^verbatim>\<open>Response.json()\<close> can return, and
  the members of the item dictionaries a caller passes in. A \<^verbatim>\<open>dict\<close> is an association
  list in insertion order, its keys distinct, looked up with \<^const>\<open>map_of\<close>. \<open>PyOther\<close> is
  an object of any further type that supports neither subscripting nor iteration (a
  \<^verbatim>\<open>float\<close>, for one); the model never looks into it.
\<close>

datatype 'a pyval =
    PyNone
  | PyBool bool
  | PyInt int
  | PyStr string
  | PyBytes string
  | PyList "'a pyval list"
  | PyDict "(string \<times> 'a pyval) list"
  | PyOther 'a

text \<open>
  The exceptions that can leave a method. \<open>RequestException msg\<close> is any \<^verbatim>\<open>Exception\<close>
  raised inside the \<^verbatim>\<open>requests\<close> session, \<open>msg\<close> being the text \<^verbatim>\<open>str(err)\<close> gives.
  What is no \<^verbatim>\<open>Exception\<close> (\<^verbatim>\<open>KeyboardInterrupt\<close>, \<^verbatim>\<open>SystemExit\<close>) is not modelled.
\<close>

datatype py_error =
    NotImplementedError
  | ValueError string
  | KeyError string
  | TypeError
  | JSONDecodeError
  | RequestException string

text \<open>
  \<^verbatim>\<open>str(err)\<close>, as the \<^verbatim>\<open>except\<close> clause of \<^verbatim>\<open>delete_collection_item\<close> puts it into its
  message: the argument of the exception, a \<^verbatim>\<open>KeyError\<close> showing the \<^verbatim>\<open>repr\<close> of its key
  (the keys of this class are \<^verbatim>\<open>'value'\<close> and \<^verbatim>\<open>'@iot.id'\<close>). The text of a \<^verbatim>\<open>TypeError\<close>
  or of a JSON error is left empty: none can reach that clause.
\<close>

definition py_str_error :: "py_error \<Rightarrow> string" where
  "py_str_error e =
     (case e of
        ValueError msg \<Rightarrow> msg
      | RequestException msg \<Rightarrow> msg
      | KeyError k \<Rightarrow> [CHR 0x27] @ k @ [CHR 0x27]
      | _ \<Rightarrow> [])"

abbreviation apostrophe :: char where
  "apostrophe \<equiv> CHR 0x27"

subsection \<open>\<^verbatim>\<open>str.split\<close> with a separator\<close>

text \<open>
  \<^verbatim>\<open>s.split(sep)\<close> for a one-character separator cuts at every occurrence; the result
  is never empty (\<^verbatim>\<open>''.split('.') == ['']\<close>).
\<close>

fun py_split :: "char \<Rightarrow> string \<Rightarrow> string list" where
  "py_split sep [] = [[]]"
| "py_split sep (c # cs) =
     (if c = sep then [] # py_split sep cs
      else (c # hd (py_split sep cs)) # tl (py_split sep cs))"

subsection \<open>\<^verbatim>\<open>int(s)\<close> and \<^verbatim>\<open>str(n)\<close>\<close>

text \<open>
  CPython limits the number of digits of a conversion between \<^verbatim>\<open>str\<close> and \<^verbatim>\<open>int\<close> in base
  ten: with the setting \<open>L\<close> of \<^verbatim>\<open>sys.get_int_max_str_digits()\<close>, 4300 unless configured, a
  conversion of more than \<open>L\<close> digits raises \<^verbatim>\<open>ValueError\<close>, and \<open>L = 0\<close> switches the limit
  off. The interpreter accepts no setting between 1 and 639, and skips the test for
  numerals of up to 640 characters, which for the settings it accepts changes nothing.
\<close>

definition limit_exceeded :: "nat \<Rightarrow> nat \<Rightarrow> bool" where
  "limit_exceeded L digits = (0 < L \<and> L < digits)"

text \<open>
  \<^verbatim>\<open>int(s)\<close> on a string, base ten: white space is stripped at both ends, one sign may
  follow, then decimal digits with single underscores allowed between two digits;
  anything else raises \<^verbatim>\<open>ValueError\<close>, which is \<open>None\<close> here, and so does a numeral with
  more digits (underscores not counted, leading zeros counted) than the limit. Below
  code point 256 the white space \<^verbatim>\<open>int\<close> strips is TAB, LF, VT, FF, CR, SPACE, NEL (0x85)
  and NBSP (0xA0).
\<close>

definition is_space :: "char \<Rightarrow> bool" where
  "is_space c = ((of_char c :: nat) \<in> {9, 10, 11, 12, 13, 32, 133, 160})"

definition is_digit :: "char \<Rightarrow> bool" where
  "is_digit c = (48 \<le> (of_char c :: nat) \<and> (of_char c :: nat) \<le> 57)"

definition digit_val :: "char \<Rightarrow> nat" where
  "digit_val c = of_char c - 48"

definition py_strip :: "string \<Rightarrow> string" where
  "py_strip s = rev (dropWhile is_space (rev (dropWhile is_space s)))"

text \<open>\<open>scan_digits acc cs\<close>: the rest of a numeral whose last character read was a digit.\<close>

fun scan_digits :: "nat \<Rightarrow> string \<Rightarrow> nat option" where
  "scan_digits acc [] = Some acc"
| "scan_digits acc (c # cs) =
     (if is_digit c then scan_digits (10 * acc + digit_val c) cs
      else if c = CHR ''_'' then
        (case cs of
           [] \<Rightarrow> None
         | d # ds \<Rightarrow> if is_digit d then scan_digits (10 * acc + digit_val d) ds else None)
      else None)"

definition parse_unsigned :: "nat \<Rightarrow> string \<Rightarrow> nat option" where
  "parse_unsigned L s =
     (case s of
        [] \<Rightarrow> None
      | c # cs \<Rightarrow>
          if is_digit c then
            (case scan_digits (digit_val c) cs of
               None \<Rightarrow> None
             | Some n \<Rightarrow> if limit_exceeded L (length (filter is_digit s)) then None else Some n)
          else None)"

definition py_int :: "nat \<Rightarrow> string \<Rightarrow> int option" where
  "py_int L s =
     (case py_strip s of
        [] \<Rightarrow> None
      | c # cs \<Rightarrow>
          if c = CHR ''-'' then map_option (\<lambda>n. - int n) (parse_unsigned L cs)
          else if c = CHR ''+'' then map_option int (parse_unsigned L cs)
          else map_option int (parse_unsigned L (c # cs)))"

definition digit_char :: "nat \<Rightarrow> char" where
  "digit_char d = char_of (48 + d)"

fun py_str_nat :: "nat \<Rightarrow> string" where
  "py_str_nat n =
     (if 10 \<le> n then py_str_nat (n div 10) @ [digit_char (n mod 10)] else [digit_char n])"

declare py_str_nat.simps [simp del]

text \<open>\<^verbatim>\<open>str(i)\<close> where it does not raise.\<close>

definition py_str_int :: "int \<Rightarrow> string" where
  "py_str_int i = (if i < 0 then CHR ''-'' # py_str_nat (nat (- i)) else py_str_nat (nat i))"

text \<open>
  \<^verbatim>\<open>str(i)\<close>: the sign does not count as a digit; beyond the limit the call raises
  \<^verbatim>\<open>ValueError\<close> with the text of CPython 3.11.
\<close>

definition py_str_int_limited :: "nat \<Rightarrow> int \<Rightarrow> py_error + string" where
  "py_str_int_limited L i =
     (if limit_exceeded L (length (py_str_nat (nat \<bar>i\<bar>))) then
        Inl (ValueError (''Exceeds the limit ('' @ py_str_nat L
               @ '' digits) for integer string conversion; ''
               @ ''use sys.set_int_max_str_digits() to increase the limit''))
      else Inr (py_str_int i))"

text \<open>The value a string of decimal digits denotes, read from the left.\<close>

definition decimal_value :: "string \<Rightarrow> nat" where
  "decimal_value s = foldl (\<lambda>a c. 10 * a + digit_val c) 0 s"

subsection \<open>\<^verbatim>\<open>str(b)\<close> of \<^verbatim>\<open>bytes\<close>\<close>

text \<open>
  \<^verbatim>\<open>str\<close> of a \<^verbatim>\<open>bytes\<close> object is its \<^verbatim>\<open>repr\<close>: the letter b and the bytes between
  quotes, single ones unless the bytes hold a single quote and no double quote; the
  quote in use and the backslash are escaped with a backslash, TAB, LF and CR are written
  \<^verbatim>\<open>\t\<close>, \<^verbatim>\<open>\n\<close>, \<^verbatim>\<open>\r\<close>, and the other bytes below 0x20 or from 0x7f on are written
  \<^verbatim>\<open>\xhh\<close> in lower-case hexadecimal.
\<close>

definition hex_digit :: "nat \<Rightarrow> char" where
  "hex_digit d = (if d < 10 then char_of (48 + d) else char_of (87 + d))"

definition bytes_quote :: "string \<Rightarrow> char" where
  "bytes_quote b = (if CHR 0x27 \<in> set b \<and> CHR 0x22 \<notin> set b then CHR 0x22 else CHR 0x27)"

definition escape_byte :: "char \<Rightarrow> char \<Rightarrow> string" where
  "escape_byte q c =
     (if c = q \<or> c = CHR 0x5C then [CHR 0x5C, c]
      else if c = CHR 0x09 then [CHR 0x5C, CHR ''t'']
      else if c = CHR 0x0A then [CHR 0x5C, CHR ''n'']
      else if c = CHR 0x0D then [CHR 0x5C, CHR ''r'']
      else if (of_char c :: nat) < 32 \<or> 127 \<le> (of_char c :: nat) then
        [CHR 0x5C, CHR ''x'', hex_digit (of_char c div 16), hex_digit (of_char c mod 16)]
      else [c])"

definition py_repr_bytes :: "string \<Rightarrow> string" where
  "py_repr_bytes b =
     (let q = bytes_quote b in CHR ''b'' # q # concat (map (escape_byte q) b) @ [q])"

section \<open>The HTTP session and the interpreter's environment\<close>

datatype verb = HttpGet | HttpPost | HttpPatch | HttpDelete

text \<open>
  One call of \<^verbatim>\<open>self.http.get/post/patch/delete\<close>: the verb, the URL, and the
  \<^verbatim>\<open>data=\<close> argument when there is one.
\<close>

record request =
  req_verb :: verb
  req_url :: string
  req_data :: "string option"

text \<open>
  What the code reads of a \<^verbatim>\<open>requests.Response\<close>: \<^verbatim>\<open>status_code\<close>, \<^verbatim>\<open>content\<close>
  and the outcome of \<^verbatim>\<open>json()\<close>, the decoded body or the exception it raises.
\<close>

record 'a response =
  status_code :: int
  content :: string
  json_body :: "py_error + 'a pyval"

text \<open>\<^verbatim>\<open>Response.ok\<close> of \<^verbatim>\<open>requests\<close>: false exactly for the statuses 400 to 599.\<close>

definition ok :: "'a response \<Rightarrow> bool" where
  "ok r = (\<not> (400 \<le> status_code r \<and> status_code r < 600))"

text \<open>
  What the class takes from outside this file. \<open>url_join\<close> and \<open>to_json\<close> are the helpers
  of \<^verbatim>\<open>pygeobox.util\<close>; \<open>max_str_digits\<close> is the interpreter's limit on integer
  strings; \<open>format_other\<close> is \<^verbatim>\<open>str()\<close> on the values that \<open>py_format\<close> below does not
  spell out (lists, dictionaries, other objects), which may raise; \<open>http\<close> is the remote
  service seen through the session: from its state \<open>'w\<close> and a request it gives the
  response, or \<open>Inl msg\<close> when the call raises an exception whose text is \<open>msg\<close>, and the
  next state.
\<close>

record ('w, 'a) env =
  url_join :: "string list \<Rightarrow> string"
  to_json :: "'a pyval \<Rightarrow> py_error + string"
  max_str_digits :: nat
  format_other :: "'a pyval \<Rightarrow> py_error + string"
  http :: "'w \<Rightarrow> request \<Rightarrow> (string + 'a response) \<times> 'w"

datatype log_level = DEBUG | ERROR

text \<open>
  The state a method runs in: the service's state, every HTTP call made so far with its
  outcome, oldest first, and the calls made to \<^verbatim>\<open>LOGGER\<close>.
\<close>

record ('w, 'a) session =
  world :: 'w
  sent :: "(request \<times> (string + 'a response)) list"
  logged :: "(log_level \<times> string) list"

definition http_call ::
  "('w, 'a) env \<Rightarrow> request \<Rightarrow> ('w, 'a) session \<Rightarrow> (string + 'a response) \<times> ('w, 'a) session"
where
  "http_call E rq st =
     (case http E (world st) rq of
        (out, w') \<Rightarrow> (out, st\<lparr>world := w', sent := sent st @ [(rq, out)]\<rparr>))"

definition log_call :: "log_level \<Rightarrow> string \<Rightarrow> ('w, 'a) session \<Rightarrow> ('w, 'a) session" where
  "log_call lvl msg st = st\<lparr>logged := logged st @ [(lvl, msg)]\<rparr>"

text \<open>
  A replacement field \<^verbatim>\<open>{v}\<close> of an f-string: \<^verbatim>\<open>str(v)\<close>, or the exception it raises.
\<close>

definition py_format :: "('w, 'a) env \<Rightarrow> 'a pyval \<Rightarrow> py_error + string" where
  "py_format E v =
     (case v of
        PyStr s \<Rightarrow> Inr s
      | PyInt n \<Rightarrow> py_str_int_limited (max_str_digits E) n
      | PyBool b \<Rightarrow> Inr (if b then ''True'' else ''False'')
      | PyNone \<Rightarrow> Inr ''None''
      | PyBytes b \<Rightarrow> Inr (py_repr_bytes b)
      | _ \<Rightarrow> format_other E v)"

text \<open>\<^verbatim>\<open>v[k]\<close> with a string key: only a \<^verbatim>\<open>dict\<close> accepts it.\<close>

definition py_getitem :: "'a pyval \<Rightarrow> string \<Rightarrow> py_error + 'a pyval" where
  "py_getitem v k =
     (case v of
        PyDict kvs \<Rightarrow> (case map_of kvs k of None \<Rightarrow> Inl (KeyError k) | Some x \<Rightarrow> Inr x)
      | _ \<Rightarrow> Inl TypeError)"

text \<open>
  \<^verbatim>\<open>for item in v\<close>: a list gives its members, a \<^verbatim>\<open>dict\<close> its keys, a string its
  characters, \<^verbatim>\<open>bytes\<close> their numbers; the other values are not iterable.
\<close>

definition py_iter :: "'a pyval \<Rightarrow> py_error + 'a pyval list" where
  "py_iter v =
     (case v of
        PyList xs \<Rightarrow> Inr xs
      | PyDict kvs \<Rightarrow> Inr (map (\<lambda>kv. PyStr (fst kv)) kvs)
      | PyStr s \<Rightarrow> Inr (map (\<lambda>c. PyStr [c]) s)
      | PyBytes s \<Rightarrow> Inr (map (\<lambda>c. PyInt (of_char c)) s)
      | _ \<Rightarrow> Inl TypeError)"

section \<open>The class \<^verbatim>\<open>SensorthingsBackend\<close>\<close>

text \<open>The object after \<^verbatim>\<open>__init__\<close>: \<^verbatim>\<open>self.type\<close> and \<^verbatim>\<open>self.url\<close>.\<close>

record backend =
  btype :: string
  url :: string

definition sta_id :: "('w, 'a) env \<Rightarrow> backend \<Rightarrow> string \<Rightarrow> string" where
  "sta_id E self collection_id =
     (let entity = last (py_split CHR ''.'' collection_id)
      in url_join E [url self, entity])"

definition add_collection ::
  "('w, 'a) env \<Rightarrow> backend \<Rightarrow> string \<Rightarrow> ('w, 'a) session
     \<Rightarrow> (py_error + 'a pyval) \<times> ('w, 'a) session"
where
  "add_collection E self collection_id st = (Inl NotImplementedError, st)"

definition delete_request :: "string \<Rightarrow> string \<Rightarrow> request" where
  "delete_request sta_index seg =
     \<lparr>req_verb = HttpDelete, req_url = sta_index @ ''('' @ seg @ '')'', req_data = None\<rparr>"

text \<open>
  The loop of \<^verbatim>\<open>delete_collection\<close> over the listed items. The message of line 83 formats
  the same \<^verbatim>\<open>@iot.id\<close> a second time, with the same text \<open>seg\<close>.
\<close>

fun delete_each ::
  "('w, 'a) env \<Rightarrow> string \<Rightarrow> 'a pyval list \<Rightarrow> ('w, 'a) session
     \<Rightarrow> (py_error + bool) \<times> ('w, 'a) session"
where
  "delete_each E sta_index [] st = (Inr True, st)"
| "delete_each E sta_index (item # rest) st =
     (case py_getitem item ''@iot.id'' of
        Inl e \<Rightarrow> (Inl e, st)
      | Inr i \<Rightarrow>
          (case py_format E i of
             Inl e \<Rightarrow> (Inl e, st)
           | Inr seg \<Rightarrow>
               (case http_call E (delete_request sta_index seg) st of
                  (Inl msg, st1) \<Rightarrow> (Inl (RequestException msg), st1)
                | (Inr del_result, st1) \<Rightarrow>
                    if status_code del_result \<noteq> 200 then
                      (Inr False,
                       log_call ERROR
                         (''Failed to delete '' @ seg @ '': ''
                            @ py_repr_bytes (content del_result)) st1)
                    else delete_each E sta_index rest st1)))"

definition delete_collection ::
  "('w, 'a) env \<Rightarrow> backend \<Rightarrow> string \<Rightarrow> ('w, 'a) session
     \<Rightarrow> (py_error + bool) \<times> ('w, 'a) session"
where
  "delete_collection E self collection_id st =
     (let sta_index = sta_id E self collection_id in
      case http_call E \<lparr>req_verb = HttpGet, req_url = sta_index, req_data = None\<rparr> st of
        (Inl msg, st1) \<Rightarrow> (Inl (RequestException msg), st1)
      | (Inr r, st1) \<Rightarrow>
          (case json_body r of
             Inl e \<Rightarrow> (Inl e, st1)
           | Inr response \<Rightarrow>
               (case py_getitem response ''value'' of
                  Inl e \<Rightarrow> (Inl e, st1)
                | Inr v \<Rightarrow>
                    (case py_iter v of
                       Inl e \<Rightarrow> (Inl e, st1)
                     | Inr items \<Rightarrow> delete_each E sta_index items st1))))"

definition has_collection ::
  "('w, 'a) env \<Rightarrow> backend \<Rightarrow> string \<Rightarrow> ('w, 'a) session
     \<Rightarrow> (py_error + bool) \<times> ('w, 'a) session"
where
  "has_collection E self collection_id st = (Inr True, st)"

text \<open>
  The branch of \<^verbatim>\<open>upsert_collection_items\<close> on \<^verbatim>\<open>method\<close>, up to the HTTP call: the
  request the branch is about to send, or the exception raised before any is sent.
\<close>

definition upsert_request ::
  "('w, 'a) env \<Rightarrow> string \<Rightarrow> string \<Rightarrow> 'a pyval \<Rightarrow> py_error + request"
where
  "upsert_request E sta_index method entity =
     (if method = ''PATCH'' then
        (case py_getitem entity ''@iot.id'' of
           Inl e \<Rightarrow> Inl e
         | Inr item_id \<Rightarrow>
             (case py_format E item_id of
                Inl e \<Rightarrow> Inl e
              | Inr seg \<Rightarrow>
                  (case to_json E entity of
                     Inl e \<Rightarrow> Inl e
                   | Inr body \<Rightarrow>
                       Inr \<lparr>req_verb = HttpPatch,
                            req_url = sta_index @ ''('' @ [apostrophe] @ seg @ [apostrophe]
                                        @ '')'',
                            req_data = Some body\<rparr>)))
      else if method = ''DELETE'' then
        (case py_getitem entity ''@iot.id'' of
           Inl e \<Rightarrow> Inl e
         | Inr item_id \<Rightarrow>
             (case py_format E item_id of
                Inl e \<Rightarrow> Inl e
              | Inr seg \<Rightarrow> Inr (delete_request sta_index seg)))
      else if method = ''POST'' then
        (case to_json E entity of
           Inl e \<Rightarrow> Inl e
         | Inr body \<Rightarrow> Inr \<lparr>req_verb = HttpPost, req_url = sta_index, req_data = Some body\<rparr>)
      else Inl (ValueError (''Unsupported method: '' @ method)))"

text \<open>The loop of \<^verbatim>\<open>upsert_collection_items\<close> over \<^verbatim>\<open>items\<close>.\<close>

fun upsert_each ::
  "('w, 'a) env \<Rightarrow> string \<Rightarrow> string \<Rightarrow> 'a pyval list \<Rightarrow> ('w, 'a) session
     \<Rightarrow> (py_error + bool) \<times> ('w, 'a) session"
where
  "upsert_each E sta_index method [] st = (Inr True, st)"
| "upsert_each E sta_index method (entity # rest) st =
     (case upsert_request E sta_index method entity of
        Inl e \<Rightarrow> (Inl e, st)
      | Inr rq \<Rightarrow>
          (case http_call E rq st of
             (Inl msg, st1) \<Rightarrow> (Inl (RequestException msg), st1)
           | (Inr r, st1) \<Rightarrow>
               if \<not> ok r then (Inr False, st1)
               else upsert_each E sta_index method rest st1))"

definition upsert_collection_items ::
  "('w, 'a) env \<Rightarrow> backend \<Rightarrow> string \<Rightarrow> 'a pyval list \<Rightarrow> string \<Rightarrow> ('w, 'a) session
     \<Rightarrow> (py_error + bool) \<times> ('w, 'a) session"
where
  "upsert_collection_items E self collection_id items method st =
     (let sta_index = sta_id E self collection_id
      in upsert_each E sta_index method items st)"

text \<open>
  The identifier as the second \<^verbatim>\<open>try\<close> of \<^verbatim>\<open>delete_collection_item\<close> finds it: the
  integer when \<^verbatim>\<open>int(item_id)\<close> returns, the string between single quotes when it
  raises \<^verbatim>\<open>ValueError\<close>.
\<close>

definition coerce_item_id :: "('w, 'a) env \<Rightarrow> string \<Rightarrow> 'a pyval" where
  "coerce_item_id E item_id =
     (case py_int (max_str_digits E) item_id of
        Some n \<Rightarrow> PyInt n
      | None \<Rightarrow> PyStr ([apostrophe] @ item_id @ [apostrophe]))"

text \<open>
  The second \<^verbatim>\<open>try\<close> holds the f-string and the call: whatever either raises is logged
  and turned into \<^verbatim>\<open>False\<close>.
\<close>

definition delete_collection_item ::
  "('w, 'a) env \<Rightarrow> backend \<Rightarrow> string \<Rightarrow> string \<Rightarrow> ('w, 'a) session
     \<Rightarrow> (py_error + bool) \<times> ('w, 'a) session"
where
  "delete_collection_item E self collection_id item_id st =
     (let st0 = log_call DEBUG (''Deleting '' @ item_id @ '' from '' @ collection_id) st;
          sta_index = sta_id E self collection_id;
          item_id' = coerce_item_id E item_id
      in case py_format E item_id' of
           Inl e \<Rightarrow>
             (Inr False, log_call ERROR (''Item deletion failed: '' @ py_str_error e) st0)
         | Inr seg \<Rightarrow>
             (case http_call E (delete_request sta_index seg) st0 of
                (Inl err, st1) \<Rightarrow>
                  (Inr False, log_call ERROR (''Item deletion failed: '' @ err) st1)
              | (Inr r, st1) \<Rightarrow> (Inr True, st1)))"

section \<open>Reading the record of calls\<close>

text \<open>\<open>answered P x\<close>: the call \<open>x\<close> came back with a response, and the response has \<open>P\<close>.\<close>

definition answered :: "('a response \<Rightarrow> bool) \<Rightarrow> request \<times> (string + 'a response) \<Rightarrow> bool" where
  "answered P x = (case snd x of Inl msg \<Rightarrow> False | Inr r \<Rightarrow> P r)"


section \<open>What the claims say, in their own words\<close>

text \<open>
  A batch that fails fast: the requests are sent one after the other in the order of the
  list, each to the service as the one before left it, and the first call that raises or
  comes back with a response that is not \<open>good\<close> is the last. The result is the record
  of the calls made.
\<close>

fun fail_fast ::
  "('w, 'a) env \<Rightarrow> ('a response \<Rightarrow> bool) \<Rightarrow> request list \<Rightarrow> 'w
     \<Rightarrow> (request \<times> (string + 'a response)) list"
where
  "fail_fast E good [] w = []"
| "fail_fast E good (rq # rqs) w =
     (case http E w rq of
        (out, w') \<Rightarrow>
          (rq, out) # (if answered good (rq, out) then fail_fast E good rqs w' else []))"

text \<open>
  What a batch returns, read off its calls: \<^verbatim>\<open>False\<close> at the first response that is not
  \<open>good\<close>, the exception of a call that raised, \<^verbatim>\<open>True\<close> when every response is \<open>good\<close>.
\<close>

fun verdict ::
  "('a response \<Rightarrow> bool) \<Rightarrow> (request \<times> (string + 'a response)) list \<Rightarrow> py_error + bool"
where
  "verdict good [] = Inr True"
| "verdict good (x # xs) =
     (case snd x of
        Inl msg \<Rightarrow> Inl (RequestException msg)
      | Inr r \<Rightarrow> if good r then verdict good xs else Inr False)"

text \<open>
  The numerals \<^verbatim>\<open>int\<close> accepts, said without the parser: groups of decimal digits, none
  empty, with one underscore between two groups.
\<close>

definition digit_groups :: "string \<Rightarrow> bool" where
  "digit_groups body =
     (\<forall>g\<in>set (py_split CHR ''_'' body). g \<noteq> [] \<and> (\<forall>c\<in>set g. is_digit c))"

text \<open>
  \<open>int_literal L s n\<close>: the string \<open>s\<close> is white space, at most one sign, such groups with
  no more than \<open>L\<close> digits in all (any number when \<open>L = 0\<close>), and white space; \<open>n\<close> is the
  number the digits denote, with the sign.
\<close>

definition int_literal :: "nat \<Rightarrow> string \<Rightarrow> int \<Rightarrow> bool" where
  "int_literal L s n =
     (\<exists>ws1 sg body ws2.
        s = ws1 @ sg @ body @ ws2
        \<and> (\<forall>c\<in>set ws1. is_space c) \<and> (\<forall>c\<in>set ws2. is_space c)
        \<and> (sg = [] \<or> sg = ''+'' \<or> sg = ''-'')
        \<and> digit_groups body
        \<and> \<not> limit_exceeded L (length (filter is_digit body))
        \<and> n = (if sg = ''-'' then - int (decimal_value (filter is_digit body))
                 else int (decimal_value (filter is_digit body))))"

section \<open>A scripted service\<close>

text \<open>
  Modelled from the spec: \<^verbatim>\<open>url_join\<close> of \<^verbatim>\<open>pygeobox.util\<close> is not among the sources;
  the spec says of it only that it joins the segment to the base URL. This instance,
  used to run the model on concrete inputs, puts a slash between the parts.
\<close>

fun slash_join :: "string list \<Rightarrow> string" where
  "slash_join [] = []"
| "slash_join [p] = p"
| "slash_join (p # q # ps) = p @ ''/'' @ slash_join (q # ps)"

text \<open>
  Modelled from the spec: \<^verbatim>\<open>to_json\<close> of \<^verbatim>\<open>pygeobox.util\<close> is not among the sources;
  the spec says of it only that request bodies are serialised as JSON. This instance,
  used to run the model on concrete inputs, writes the keys of a \<^verbatim>\<open>dict\<close> between
  braces and refuses everything else.
\<close>

definition keys_json :: "'a pyval \<Rightarrow> py_error + string" where
  "keys_json v =
     (case v of
        PyDict kvs \<Rightarrow> Inr (''{'' @ concat (map fst kvs) @ ''}'')
      | _ \<Rightarrow> Inl TypeError)"

text \<open>
  The interpreter of the demonstrations has the default limit of 4300 digits. A response
  without a JSON body is \<open>reply code (Inl JSONDecodeError)\<close>.
\<close>

text \<open>A service that plays back a list of outcomes, one for each call, whatever is asked.\<close>

definition scripted ::
  "(string + 'a response) list \<Rightarrow> request \<Rightarrow> (string + 'a response) \<times> (string + 'a response) list"
where
  "scripted w rq = (case w of [] \<Rightarrow> (Inl ''connection refused'', []) | out # rest \<Rightarrow> (out, rest))"

definition demo_env :: "((string + unit response) list, unit) env" where
  "demo_env =
     \<lparr>url_join = slash_join, to_json = keys_json, max_str_digits = 4300,
      format_other = (\<lambda>v. Inr ''?''), http = scripted\<rparr>"

definition demo_backend :: backend where
  "demo_backend = \<lparr>btype = ''SensorThings'', url = ''http://sta/v1.1''\<rparr>"

definition fresh :: "'w \<Rightarrow> ('w, 'a) session" where
  "fresh w = \<lparr>world = w, sent = [], logged = []\<rparr>"

definition reply :: "int \<Rightarrow> py_error + unit pyval \<Rightarrow> unit response" where
  "reply code j = \<lparr>status_code = code, content = [], json_body = j\<rparr>"

definition iot_item :: "unit pyval \<Rightarrow> unit pyval" where
  "iot_item i = PyDict [(''@iot.id'', i)]"

text \<open>A response with a status and no JSON in its body.\<close>

definition plain :: "int \<Rightarrow> unit response" where
  "plain code = reply code (Inl JSONDecodeError)"

text \<open>A listing of three items, the last with a string for its identifier.\<close>

definition three_items :: "unit pyval" where
  "three_items = PyDict [(''value'', PyList [iot_item (PyInt 1), iot_item (PyInt 2),
                                            iot_item (PyStr ''x7'')])]"

text \<open>The listing of the scenario with two items.\<close>

definition two_items :: "unit pyval" where
  "two_items = PyDict [(''value'', PyList [PyDict [(''@iot.id'', PyInt 1)],
                                         PyDict [(''@iot.id'', PyInt 2)]])]"

section \<open>Facts about the string functions\<close>

subsection \<open>The last segment of a split\<close>

lemma py_split_not_Nil: "py_split sep s \<noteq> []"
  by (induction s) auto

lemma py_split_no_sep: "sep \<notin> set s \<Longrightarrow> py_split sep s = [s]"
  by (induction s) auto

lemma py_split_append: "py_split sep (p @ sep # q) = py_split sep p @ py_split sep q"
proof (induction p)
  case Nil
  show ?case by simp
next
  case (Cons c p)
  then show ?case by (simp add: py_split_not_Nil)
qed

lemma last_py_split:
  assumes "sep \<notin> set e"
  shows "last (py_split sep (p @ sep # e)) = e"
proof -
  have "py_split sep (p @ sep # e) = py_split sep p @ [e]"
    using assms by (simp add: py_split_append py_split_no_sep)
  then show ?thesis by simp
qed

lemma has_last_segment:
  assumes "sep \<in> set s"
  shows "\<exists>p e. s = p @ sep # e \<and> sep \<notin> set e"
  using assms by (metis split_list_last)

lemma in_some_group:
  "c \<in> set s \<Longrightarrow> c \<noteq> sep \<Longrightarrow> \<exists>g\<in>set (py_split sep s). c \<in> set g"
proof (induction s)
  case Nil
  then show ?case by simp
next
  case (Cons x s)
  obtain g gs where r: "py_split sep s = g # gs"
    using py_split_not_Nil [of sep s] by (cases "py_split sep s") auto
  show ?case
  proof (cases "x = sep")
    case True
    with Cons show ?thesis by auto
  next
    case False
    show ?thesis
    proof (cases "c = x")
      case True
      with False r show ?thesis by simp
    next
      case ne: False
      with Cons have "\<exists>h\<in>set (g # gs). c \<in> set h" by (simp add: r)
      with False r show ?thesis by auto
    qed
  qed
qed

lemma empty_group_after_last_sep: "[] \<in> set (py_split sep (p @ [sep]))"
  using py_split_append [of sep p "[]"] by simp

subsection \<open>\<^verbatim>\<open>int\<close> on strings of digits\<close>

lemma is_digit_not_space: "is_digit c \<Longrightarrow> \<not> is_space c"
  by (auto simp: is_digit_def is_space_def)

lemma is_digit_not_sign: "is_digit c \<Longrightarrow> c \<noteq> CHR ''-'' \<and> c \<noteq> CHR ''+'' \<and> c \<noteq> CHR ''_''"
  by (auto simp: is_digit_def)

lemma sign_not_space: "\<not> is_space CHR ''-''" "\<not> is_space CHR ''+''"
  by (simp_all add: is_space_def)

lemma py_strip_id:
  assumes "s \<noteq> []" "\<not> is_space (hd s)" "\<not> is_space (last s)"
  shows "py_strip s = s"
proof -
  have a: "dropWhile is_space s = s"
    using assms by (cases s) auto
  have "dropWhile is_space (rev s) = rev s"
    using assms by (cases "rev s") (auto simp: last_rev hd_rev)
  then show ?thesis by (simp add: py_strip_def a)
qed

lemma py_strip_padded:
  assumes "t \<noteq> []" "\<not> is_space (hd t)" "\<not> is_space (last t)"
    and "\<forall>c\<in>set ws1. is_space c" "\<forall>c\<in>set ws2. is_space c"
  shows "py_strip (ws1 @ t @ ws2) = t"
proof -
  have a: "dropWhile is_space (ws1 @ t @ ws2) = t @ ws2"
    using assms(1,2,4) by (cases t) (simp_all add: dropWhile_append2)
  have "dropWhile is_space (rev ws2 @ rev t) = dropWhile is_space (rev t)"
    using assms(5) by (intro dropWhile_append2) simp
  also have "\<dots> = rev t"
    using assms(1,3) by (cases "rev t") (auto simp: last_rev hd_rev)
  finally have "dropWhile is_space (rev ws2 @ rev t) = rev t" .
  then show ?thesis by (simp add: py_strip_def a)
qed

lemma py_strip_decompose:
  "\<exists>ws1 ws2. s = ws1 @ py_strip s @ ws2 \<and> (\<forall>c\<in>set ws1. is_space c) \<and> (\<forall>c\<in>set ws2. is_space c)"
proof -
  let ?u = "dropWhile is_space s"
  let ?ws1 = "takeWhile is_space s"
  let ?ws2 = "rev (takeWhile is_space (rev ?u))"
  have "rev (takeWhile is_space (rev ?u) @ dropWhile is_space (rev ?u)) = rev (rev ?u)"
    by (simp only: takeWhile_dropWhile_id)
  then have "rev (dropWhile is_space (rev ?u)) @ ?ws2 = ?u"
    by (simp only: rev_append rev_rev_ident)
  then have u: "?u = py_strip s @ ?ws2"
    by (simp only: py_strip_def)
  have "s = ?ws1 @ ?u" by simp
  with u have "s = ?ws1 @ py_strip s @ ?ws2" by simp
  moreover have "\<forall>c\<in>set ?ws1. is_space c" by (auto dest: set_takeWhileD)
  moreover have "\<forall>c\<in>set ?ws2. is_space c" by (auto dest: set_takeWhileD)
  ultimately show ?thesis by blast
qed

lemma scan_digits_all:
  "\<forall>c\<in>set cs. is_digit c \<Longrightarrow>
     scan_digits acc cs = Some (foldl (\<lambda>a c. 10 * a + digit_val c) acc cs)"
  by (induction cs arbitrary: acc) auto

lemma filter_all_digits: "\<forall>c\<in>set s. is_digit c \<Longrightarrow> filter is_digit s = s"
  by (induction s) auto

lemma parse_unsigned_digits:
  assumes "s \<noteq> []" "\<forall>c\<in>set s. is_digit c"
  shows "parse_unsigned L s
           = (if limit_exceeded L (length s) then None else Some (decimal_value s))"
proof -
  obtain c cs where s: "s = c # cs" using assms(1) by (cases s) auto
  have d: "is_digit c" "\<forall>x\<in>set cs. is_digit x" using assms(2) s by auto
  have "filter is_digit s = s" using assms(2) by (rule filter_all_digits)
  then show ?thesis
    using d s by (simp add: parse_unsigned_def decimal_value_def scan_digits_all)
qed

lemma py_int_digits:
  assumes "s \<noteq> []" "\<forall>c\<in>set s. is_digit c"
  shows "py_int L s
           = (if limit_exceeded L (length s) then None else Some (int (decimal_value s)))"
proof -
  obtain c cs where s: "s = c # cs" using assms(1) by (cases s) auto
  have d: "is_digit c" using assms(2) s by auto
  have "is_digit (last s)" using assms by (meson last_in_set)
  then have "py_strip s = s"
    using assms(1) d s by (intro py_strip_id) (auto simp: is_digit_not_space)
  then show ?thesis
    using is_digit_not_sign [OF d] parse_unsigned_digits [OF assms, of L]
    by (simp add: py_int_def s)
qed

subsection \<open>The digits of \<^verbatim>\<open>str(n)\<close>\<close>

lemma digit_char_props:
  assumes "d < 10"
  shows "is_digit (digit_char d)" and "digit_val (digit_char d) = d"
  using assms by (simp_all add: is_digit_def digit_val_def digit_char_def)

lemma py_str_nat_not_Nil: "py_str_nat n \<noteq> []"
  by (subst py_str_nat.simps) simp

lemma py_str_nat_digits: "\<forall>c\<in>set (py_str_nat n). is_digit c"
proof (induction n rule: py_str_nat.induct)
  case (1 n)
  show ?case
  proof (cases "10 \<le> n")
    case True
    with 1 show ?thesis
      by (subst py_str_nat.simps) (simp add: digit_char_props)
  next
    case False
    then show ?thesis
      by (subst py_str_nat.simps) (simp add: digit_char_props)
  qed
qed

lemma decimal_value_py_str_nat: "decimal_value (py_str_nat n) = n"
proof (induction n rule: py_str_nat.induct)
  case (1 n)
  show ?case
  proof (cases "10 \<le> n")
    case True
    then have "decimal_value (py_str_nat n)
                 = 10 * decimal_value (py_str_nat (n div 10)) + n mod 10"
      by (subst py_str_nat.simps) (simp add: decimal_value_def digit_char_props)
    with 1 True show ?thesis by simp
  next
    case False
    then show ?thesis
      by (subst py_str_nat.simps) (simp add: decimal_value_def digit_char_props)
  qed
qed

lemma digit_val_less: "is_digit c \<Longrightarrow> digit_val c < 10"
  by (auto simp: is_digit_def digit_val_def)

lemma foldl_digits_bound:
  "\<forall>c\<in>set ds. is_digit c \<Longrightarrow>
     foldl (\<lambda>a c. 10 * a + digit_val c) acc ds < (acc + 1) * 10 ^ length ds"
proof (induction ds arbitrary: acc)
  case Nil
  show ?case by simp
next
  case (Cons d ds)
  then have "foldl (\<lambda>a c. 10 * a + digit_val c) (10 * acc + digit_val d) ds
               < (10 * acc + digit_val d + 1) * 10 ^ length ds"
    by simp
  also have "\<dots> \<le> (10 * acc + 10) * 10 ^ length ds"
    using digit_val_less [of d] Cons.prems by (intro mult_le_mono1) simp
  finally show ?case by (simp add: algebra_simps)
qed

lemma decimal_value_bound:
  "\<forall>c\<in>set ds. is_digit c \<Longrightarrow> decimal_value ds < 10 ^ length ds"
  using foldl_digits_bound [of ds 0] by (simp add: decimal_value_def)

lemma length_py_str_nat:
  "0 < k \<Longrightarrow> n < 10 ^ k \<Longrightarrow> length (py_str_nat n) \<le> k"
proof (induction n arbitrary: k rule: py_str_nat.induct)
  case (1 n)
  show ?case
  proof (cases "10 \<le> n")
    case False
    then show ?thesis using "1.prems"(1) by (subst py_str_nat.simps) simp
  next
    case True
    obtain j where k: "k = Suc j" using "1.prems"(1) by (cases k) auto
    have "0 < j" using True "1.prems"(2) k by (cases j) auto
    moreover have "n div 10 < 10 ^ j"
      using "1.prems"(2) k by (simp add: less_mult_imp_div_less mult.commute)
    ultimately have "length (py_str_nat (n div 10)) \<le> j"
      using True by (intro "1.IH")
    then show ?thesis using True k by (subst py_str_nat.simps) simp
  qed
qed

lemma length_py_str_nat_decimal_value:
  assumes "ds \<noteq> []" "\<forall>c\<in>set ds. is_digit c"
  shows "length (py_str_nat (decimal_value ds)) \<le> length ds"
  using assms decimal_value_bound [OF assms(2)] by (intro length_py_str_nat) simp_all

lemma limit_exceeded_mono: "\<not> limit_exceeded L k \<Longrightarrow> j \<le> k \<Longrightarrow> \<not> limit_exceeded L j"
  by (auto simp: limit_exceeded_def)

subsection \<open>The parser and the numerals said without it\<close>

lemma scan_digits_value:
  "scan_digits acc cs = Some m \<Longrightarrow>
     m = foldl (\<lambda>a c. 10 * a + digit_val c) acc (filter is_digit cs)"
proof (induction acc cs rule: scan_digits.induct)
  case (1 acc)
  then show ?case by simp
next
  case (2 acc c cs)
  show ?case
  proof (cases "is_digit c")
    case True
    with 2 show ?thesis by simp
  next
    case False
    with "2.prems" obtain d ds where cs: "c = CHR ''_''" "cs = d # ds" "is_digit d"
      "scan_digits (10 * acc + digit_val d) ds = Some m"
      by (auto split: if_splits list.splits)
    with False "2.IH"(2) [of d ds] show ?thesis by simp
  qed
qed

text \<open>
  After a digit, the rest of the numeral is well formed exactly when the group under way
  has digits only and the groups after it are digits only and not empty.
\<close>

lemma scan_digits_accepts:
  "(\<exists>m. scan_digits acc cs = Some m) \<longleftrightarrow>
     (\<forall>c\<in>set (hd (py_split CHR ''_'' cs)). is_digit c)
     \<and> (\<forall>g\<in>set (tl (py_split CHR ''_'' cs)). g \<noteq> [] \<and> (\<forall>c\<in>set g. is_digit c))"
proof (induction acc cs rule: scan_digits.induct)
  case (1 acc)
  show ?case by simp
next
  case (2 acc c cs)
  obtain g gs where r: "py_split CHR ''_'' cs = g # gs"
    using py_split_not_Nil [of "CHR ''_''" cs] by (cases "py_split CHR ''_'' cs") auto
  show ?case
  proof (cases "is_digit c")
    case True
    then have "c \<noteq> CHR ''_''" by (simp add: is_digit_not_sign)
    with True "2.IH"(1) r show ?thesis by simp
  next
    case nd: False
    show ?thesis
    proof (cases "c = CHR ''_''")
      case False
      with nd r show ?thesis by simp
    next
      case us: True
      show ?thesis
      proof (cases cs)
        case Nil
        with us nd show ?thesis by simp
      next
        case (Cons d ds)
        obtain h hs where r': "py_split CHR ''_'' ds = h # hs"
          using py_split_not_Nil [of "CHR ''_''" ds] by (cases "py_split CHR ''_'' ds") auto
        show ?thesis
        proof (cases "is_digit d")
          case True
          then have "d \<noteq> CHR ''_''" by (simp add: is_digit_not_sign)
          with True us nd Cons r' "2.IH"(2) [OF nd us Cons True] show ?thesis by simp
        next
          case False
          with us nd Cons r' show ?thesis by auto
        qed
      qed
    qed
  qed
qed

lemma digit_groups_Cons:
  "digit_groups (c # cs) \<longleftrightarrow>
     is_digit c \<and> (\<forall>x\<in>set (hd (py_split CHR ''_'' cs)). is_digit x)
     \<and> (\<forall>g\<in>set (tl (py_split CHR ''_'' cs)). g \<noteq> [] \<and> (\<forall>x\<in>set g. is_digit x))"
proof -
  obtain g gs where r: "py_split CHR ''_'' cs = g # gs"
    using py_split_not_Nil [of "CHR ''_''" cs] by (cases "py_split CHR ''_'' cs") auto
  show ?thesis
  proof (cases "c = CHR ''_''")
    case True
    then have "\<not> is_digit c" by (auto simp: is_digit_def)
    with True show ?thesis by (simp add: digit_groups_def)
  next
    case False
    with r show ?thesis by (auto simp: digit_groups_def)
  qed
qed

lemma digit_groups_not_Nil: "digit_groups body \<Longrightarrow> body \<noteq> []"
  by (auto simp: digit_groups_def)

lemma parse_unsigned_iff:
  "parse_unsigned L body = Some m \<longleftrightarrow>
     digit_groups body \<and> \<not> limit_exceeded L (length (filter is_digit body))
     \<and> m = decimal_value (filter is_digit body)"
proof (cases body)
  case Nil
  then show ?thesis by (auto simp: parse_unsigned_def dest: digit_groups_not_Nil)
next
  case (Cons c cs)
  show ?thesis
  proof (cases "is_digit c")
    case False
    with Cons show ?thesis by (simp add: parse_unsigned_def digit_groups_Cons)
  next
    case True
    show ?thesis
    proof (cases "scan_digits (digit_val c) cs")
      case None
      then have "\<not> digit_groups body"
        using scan_digits_accepts [of "digit_val c" cs] Cons by (simp add: digit_groups_Cons)
      with None True Cons show ?thesis by (simp add: parse_unsigned_def)
    next
      case (Some n)
      then have g: "digit_groups body"
        using scan_digits_accepts [of "digit_val c" cs] Cons True
        by (simp add: digit_groups_Cons)
      have "n = decimal_value (filter is_digit body)"
        using scan_digits_value [OF Some] True Cons by (simp add: decimal_value_def)
      with Some True Cons g show ?thesis by (auto simp: parse_unsigned_def)
    qed
  qed
qed

lemma digit_groups_chars:
  assumes "digit_groups body" "c \<in> set body"
  shows "is_digit c \<or> c = CHR ''_''"
  using in_some_group [of c body "CHR ''_''"] assms by (auto simp: digit_groups_def)

lemma digit_groups_ends:
  assumes "digit_groups body"
  shows "is_digit (hd body)" and "is_digit (last body)"
proof -
  have ne: "body \<noteq> []" using assms by (rule digit_groups_not_Nil)
  then obtain c cs where "body = c # cs" by (cases body) auto
  with assms show "is_digit (hd body)" by (simp add: digit_groups_Cons)
  have "last body \<noteq> CHR ''_''"
  proof
    assume "last body = CHR ''_''"
    with ne have "body = butlast body @ [CHR ''_'']"
      by (metis append_butlast_last_id)
    then have "[] \<in> set (py_split CHR ''_'' body)"
      using empty_group_after_last_sep [of "CHR ''_''" "butlast body"] by simp
    with assms show False by (auto simp: digit_groups_def)
  qed
  with digit_groups_chars [OF assms, of "last body"] ne show "is_digit (last body)"
    by simp
qed

lemma digit_groups_digits:
  assumes "digit_groups body"
  shows "filter is_digit body \<noteq> []" and "\<forall>c\<in>set (filter is_digit body). is_digit c"
proof -
  have "body \<noteq> []" using assms by (rule digit_groups_not_Nil)
  then have "hd body \<in> set body" by simp
  with digit_groups_ends(1) [OF assms] show "filter is_digit body \<noteq> []"
    by (auto simp: filter_empty_conv)
  show "\<forall>c\<in>set (filter is_digit body). is_digit c" by simp
qed

text \<open>\<^verbatim>\<open>int\<close> returns \<open>n\<close> for exactly the strings that are such a numeral of \<open>n\<close>.\<close>

lemma py_int_iff: "py_int L s = Some n \<longleftrightarrow> int_literal L s n"
proof
  assume run: "py_int L s = Some n"
  from py_strip_decompose [of s] obtain ws1 ws2 where
    dec: "s = ws1 @ py_strip s @ ws2" "\<forall>c\<in>set ws1. is_space c" "\<forall>c\<in>set ws2. is_space c"
    by blast
  from run obtain c cs where t: "py_strip s = c # cs"
    by (cases "py_strip s") (auto simp: py_int_def)
  consider (minus) "c = CHR ''-''" | (plus) "c = CHR ''+''"
    | (none) "c \<noteq> CHR ''-''" "c \<noteq> CHR ''+''"
    by blast
  then show "int_literal L s n"
  proof cases
    case minus
    with run t obtain m where m: "parse_unsigned L cs = Some m" "n = - int m"
      by (auto simp: py_int_def)
    from m(1) have "digit_groups cs" "\<not> limit_exceeded L (length (filter is_digit cs))"
      "m = decimal_value (filter is_digit cs)"
      by (simp_all add: parse_unsigned_iff)
    with dec t minus m(2) show ?thesis
      unfolding int_literal_def
      by (intro exI [of _ ws1] exI [of _ "''-''"] exI [of _ cs] exI [of _ ws2]) simp
  next
    case plus
    with run t obtain m where m: "parse_unsigned L cs = Some m" "n = int m"
      by (auto simp: py_int_def)
    from m(1) have "digit_groups cs" "\<not> limit_exceeded L (length (filter is_digit cs))"
      "m = decimal_value (filter is_digit cs)"
      by (simp_all add: parse_unsigned_iff)
    with dec t plus m(2) show ?thesis
      unfolding int_literal_def
      by (intro exI [of _ ws1] exI [of _ "''+''"] exI [of _ cs] exI [of _ ws2]) simp
  next
    case none
    with run t obtain m where m: "parse_unsigned L (c # cs) = Some m" "n = int m"
      by (auto simp: py_int_def)
    from m(1) have "digit_groups (c # cs)"
      "\<not> limit_exceeded L (length (filter is_digit (c # cs)))"
      "m = decimal_value (filter is_digit (c # cs))"
      by (simp_all add: parse_unsigned_iff)
    with dec t m(2) show ?thesis
      unfolding int_literal_def
      by (intro exI [of _ ws1] exI [of _ "[]"] exI [of _ "c # cs"] exI [of _ ws2]) simp
  qed
next
  assume "int_literal L s n"
  then obtain ws1 sg body ws2 where
    s: "s = ws1 @ sg @ body @ ws2"
    and ws: "\<forall>c\<in>set ws1. is_space c" "\<forall>c\<in>set ws2. is_space c"
    and sg: "sg = [] \<or> sg = ''+'' \<or> sg = ''-''"
    and body: "digit_groups body" "\<not> limit_exceeded L (length (filter is_digit body))"
    and n: "n = (if sg = ''-'' then - int (decimal_value (filter is_digit body))
                 else int (decimal_value (filter is_digit body)))"
    unfolding int_literal_def by blast
  have ne: "body \<noteq> []" using body(1) by (rule digit_groups_not_Nil)
  have ends: "is_digit (hd body)" "is_digit (last body)"
    using digit_groups_ends [OF body(1)] by simp_all
  have parse: "parse_unsigned L body = Some (decimal_value (filter is_digit body))"
    using body by (simp add: parse_unsigned_iff)
  have "sg @ body \<noteq> []" using ne by simp
  moreover have "\<not> is_space (hd (sg @ body))"
    using sg ends(1) ne by (auto simp: sign_not_space is_digit_not_space)
  moreover have "\<not> is_space (last (sg @ body))"
    using ends(2) ne by (simp add: is_digit_not_space)
  ultimately have "py_strip (ws1 @ (sg @ body) @ ws2) = sg @ body"
    using ws by (intro py_strip_padded)
  then have strip: "py_strip s = sg @ body" using s by simp
  obtain c cs where b: "body = c # cs" using ne by (cases body) auto
  with ends(1) have c: "is_digit c" by simp
  from sg show "py_int L s = Some n"
  proof (elim disjE)
    assume "sg = []"
    with strip b parse n is_digit_not_sign [OF c] show ?thesis
      by (simp add: py_int_def)
  next
    assume "sg = ''+''"
    with strip parse n show ?thesis by (simp add: py_int_def)
  next
    assume "sg = ''-''"
    with strip parse n show ?thesis by (simp add: py_int_def)
  qed
qed

lemma py_int_None_iff: "py_int L s = None \<longleftrightarrow> (\<forall>n. \<not> int_literal L s n)"
  using py_int_iff [of L s] by (cases "py_int L s") auto

text \<open>An accepted numeral gives an integer that \<^verbatim>\<open>str\<close> writes within the limit.\<close>

lemma int_literal_within_limit:
  assumes "int_literal L s n"
  shows "py_str_int_limited L n = Inr (py_str_int n)"
proof -
  from assms obtain sg body where
    body: "digit_groups body" "\<not> limit_exceeded L (length (filter is_digit body))"
    and n: "n = (if sg = ''-'' then - int (decimal_value (filter is_digit body))
                 else int (decimal_value (filter is_digit body)))"
    unfolding int_literal_def by blast
  let ?ds = "filter is_digit body"
  have "nat \<bar>n\<bar> = decimal_value ?ds" using n by simp
  moreover have "length (py_str_nat (decimal_value ?ds)) \<le> length ?ds"
    using digit_groups_digits [OF body(1)] by (intro length_py_str_nat_decimal_value)
  ultimately have "\<not> limit_exceeded L (length (py_str_nat (nat \<bar>n\<bar>)))"
    using limit_exceeded_mono [OF body(2)] by simp
  then show ?thesis by (simp add: py_str_int_limited_def)
qed

lemma py_int_None_other_char:
  assumes "c \<in> set s" "\<not> is_digit c" "\<not> is_space c"
    and "c \<noteq> CHR ''+''" "c \<noteq> CHR ''-''" "c \<noteq> CHR ''_''"
  shows "py_int L s = None"
proof (rule ccontr)
  assume "py_int L s \<noteq> None"
  then obtain n where "py_int L s = Some n" by auto
  then have "int_literal L s n" by (simp add: py_int_iff)
  then obtain ws1 sg body ws2 where
    s: "s = ws1 @ sg @ body @ ws2"
    and ws: "\<forall>c\<in>set ws1. is_space c" "\<forall>c\<in>set ws2. is_space c"
    and sg: "sg = [] \<or> sg = ''+'' \<or> sg = ''-''"
    and body: "digit_groups body"
    unfolding int_literal_def by blast
  from assms(1) s have "c \<in> set ws1 \<or> c \<in> set sg \<or> c \<in> set body \<or> c \<in> set ws2"
    by auto
  with ws sg assms(3-5) have "c \<in> set body" by auto
  from digit_groups_chars [OF body this] assms(2,6) show False by simp
qed

text \<open>The decimal text of an integer, when \<^verbatim>\<open>str\<close> gives it, is read back as that integer.\<close>

lemma py_int_py_str_int:
  assumes "py_str_int_limited L i = Inr t"
  shows "py_int L t = Some i"
proof -
  let ?ds = "py_str_nat (nat \<bar>i\<bar>)"
  from assms have lim: "\<not> limit_exceeded L (length ?ds)" and t: "t = py_str_int i"
    by (auto simp: py_str_int_limited_def split: if_splits)
  have ds: "?ds \<noteq> []" "\<forall>c\<in>set ?ds. is_digit c"
    using py_str_nat_not_Nil py_str_nat_digits by simp_all
  have groups: "digit_groups ?ds"
  proof -
    have "CHR ''_'' \<notin> set ?ds" using ds(2) is_digit_not_sign by blast
    then have "py_split CHR ''_'' ?ds = [?ds]" by (rule py_split_no_sep)
    with ds show ?thesis by (simp add: digit_groups_def)
  qed
  have f: "filter is_digit ?ds = ?ds" using ds(2) by (rule filter_all_digits)
  have "t = [] @ (if i < 0 then ''-'' else []) @ ?ds @ []"
    using t by (auto simp: py_str_int_def)
  moreover have "i = (if (if i < 0 then ''-'' else []) = ''-''
               then - int (decimal_value (filter is_digit ?ds))
               else int (decimal_value (filter is_digit ?ds)))"
    by (simp add: f decimal_value_py_str_nat)
  moreover have "\<not> limit_exceeded L (length (filter is_digit ?ds))"
    using lim f by simp
  ultimately have "int_literal L t i"
    unfolding int_literal_def using groups
    by (intro exI [of _ "[]::string"] exI [of _ "if i < 0 then ''-'' else []"]
          exI [of _ ?ds]) auto
  then show ?thesis by (simp add: py_int_iff)
qed

section \<open>The calls a loop makes\<close>

text \<open>
  Both loops add their calls to the record in the order of the list, one call for each
  item they reach, and stop at the first call they count as failed.
\<close>

lemma http_call_sent:
  "http_call E rq st = (out, st1) \<Longrightarrow>
     sent st1 = sent st @ [(rq, out)] \<and> logged st1 = logged st
     \<and> http E (world st) rq = (out, world st1)"
  by (auto simp: http_call_def split: prod.splits)

lemma delete_each_trace:
  "delete_each E sta items st = (res, st') \<Longrightarrow>
   \<exists>xs. sent st' = sent st @ xs \<and> length xs \<le> length items \<and>
     list_all2 (\<lambda>item x. \<exists>i seg. py_getitem item ''@iot.id'' = Inr i
                  \<and> py_format E i = Inr seg \<and> fst x = delete_request sta seg)
       (take (length xs) items) xs \<and>
     (res = Inr True \<longrightarrow>
        length xs = length items \<and> (\<forall>x\<in>set xs. answered (\<lambda>r. status_code r = 200) x)) \<and>
     (res = Inr False \<longrightarrow>
        xs \<noteq> [] \<and> answered (\<lambda>r. status_code r \<noteq> 200) (last xs)
          \<and> (\<forall>x\<in>set (butlast xs). answered (\<lambda>r. status_code r = 200) x))"
proof (induction items arbitrary: st)
  case Nil
  then show ?case by auto
next
  case (Cons item rest)
  show ?case
  proof (cases "py_getitem item ''@iot.id''")
    case (Inl e)
    with Cons.prems have "res = Inl e" "st' = st" by auto
    then show ?thesis by (intro exI [of _ "[]"]) simp
  next
    case (Inr i)
    show ?thesis
    proof (cases "py_format E i")
      case (Inl e)
      with Cons.prems Inr have "res = Inl e" "st' = st" by auto
      then show ?thesis by (intro exI [of _ "[]"]) simp
    next
      case seg: (Inr seg)
      let ?rq = "delete_request sta seg"
      obtain out st1 where call: "http_call E ?rq st = (out, st1)"
        by (cases "http_call E ?rq st") auto
      have s1: "sent st1 = sent st @ [(?rq, out)]"
        using http_call_sent [OF call] by simp
      show ?thesis
      proof (cases out)
        case (Inl msg)
        with Cons.prems Inr seg call have "res = Inl (RequestException msg)" "st' = st1"
          by auto
        then show ?thesis
          using s1 Inr seg by (intro exI [of _ "[(?rq, out)]"]) simp
      next
        case r: (Inr r)
        show ?thesis
        proof (cases "status_code r = 200")
          case False
          with Cons.prems Inr seg call r have res: "res = Inr False"
            and "st' = log_call ERROR
                         (''Failed to delete '' @ seg @ '': '' @ py_repr_bytes (content r)) st1"
            by auto
          then have "sent st' = sent st @ [(?rq, out)]"
            using s1 by (simp add: log_call_def)
          then show ?thesis
            using False Inr seg res r
            by (intro exI [of _ "[(?rq, out)]"]) (simp add: answered_def)
        next
          case True
          with Cons.prems Inr seg call r have "delete_each E sta rest st1 = (res, st')"
            by simp
          from Cons.IH [OF this] obtain xs where xs: "sent st' = sent st1 @ xs"
            "length xs \<le> length rest"
            "list_all2 (\<lambda>item x. \<exists>i seg. py_getitem item ''@iot.id'' = Inr i
                          \<and> py_format E i = Inr seg \<and> fst x = delete_request sta seg)
               (take (length xs) rest) xs"
            "res = Inr True \<longrightarrow>
               length xs = length rest
                 \<and> (\<forall>x\<in>set xs. answered (\<lambda>r. status_code r = 200) x)"
            "res = Inr False \<longrightarrow>
               xs \<noteq> [] \<and> answered (\<lambda>r. status_code r \<noteq> 200) (last xs)
                 \<and> (\<forall>x\<in>set (butlast xs). answered (\<lambda>r. status_code r = 200) x)"
            by blast
          show ?thesis
            using xs s1 True Inr seg r
            by (intro exI [of _ "(?rq, out) # xs"]) (auto simp: answered_def)
        qed
      qed
    qed
  qed
qed

lemma upsert_each_trace:
  "upsert_each E sta m items st = (res, st') \<Longrightarrow>
   \<exists>xs. sent st' = sent st @ xs \<and> length xs \<le> length items \<and>
     list_all2 (\<lambda>item x. upsert_request E sta m item = Inr (fst x))
       (take (length xs) items) xs \<and>
     (res = Inr True \<longrightarrow> length xs = length items \<and> (\<forall>x\<in>set xs. answered ok x)) \<and>
     (res = Inr False \<longrightarrow>
        xs \<noteq> [] \<and> answered (\<lambda>r. \<not> ok r) (last xs)
          \<and> (\<forall>x\<in>set (butlast xs). answered ok x))"
proof (induction items arbitrary: st)
  case Nil
  then show ?case by auto
next
  case (Cons entity rest)
  show ?case
  proof (cases "upsert_request E sta m entity")
    case (Inl e)
    with Cons.prems have "res = Inl e" "st' = st" by auto
    then show ?thesis by (intro exI [of _ "[]"]) simp
  next
    case (Inr rq)
    obtain out st1 where call: "http_call E rq st = (out, st1)"
      by (cases "http_call E rq st") auto
    have s1: "sent st1 = sent st @ [(rq, out)]"
      using http_call_sent [OF call] by simp
    show ?thesis
    proof (cases out)
      case (Inl msg)
      with Cons.prems Inr call have "res = Inl (RequestException msg)" "st' = st1" by auto
      then show ?thesis
        using s1 Inr by (intro exI [of _ "[(rq, out)]"]) simp
    next
      case r: (Inr r)
      show ?thesis
      proof (cases "ok r")
        case False
        with Cons.prems Inr call r have "res = Inr False" "st' = st1" by auto
        then show ?thesis
          using s1 False Inr r by (intro exI [of _ "[(rq, out)]"]) (simp add: answered_def)
      next
        case True
        with Cons.prems Inr call r have "upsert_each E sta m rest st1 = (res, st')"
          by simp
        from Cons.IH [OF this] obtain xs where xs: "sent st' = sent st1 @ xs"
          "length xs \<le> length rest"
          "list_all2 (\<lambda>item x. upsert_request E sta m item = Inr (fst x))
             (take (length xs) rest) xs"
          "res = Inr True \<longrightarrow> length xs = length rest \<and> (\<forall>x\<in>set xs. answered ok x)"
          "res = Inr False \<longrightarrow>
             xs \<noteq> [] \<and> answered (\<lambda>r. \<not> ok r) (last xs)
               \<and> (\<forall>x\<in>set (butlast xs). answered ok x)"
          by blast
        show ?thesis
          using xs s1 True Inr r
          by (intro exI [of _ "(rq, out) # xs"]) (auto simp: answered_def)
      qed
    qed
  qed
qed

lemma list_all2_take_nth:
  assumes "list_all2 P (take (length xs) items) xs" "length xs \<le> length items" "k < length xs"
  shows "P (items ! k) (xs ! k)"
  using assms by (auto simp: list_all2_conv_all_nth)

section \<open>The loops against a batch that fails fast\<close>

text \<open>
  When every item of the list has what its branch reads, a loop makes exactly the calls
  of the batch that fails fast over the requests of the items, and returns its verdict.
\<close>

lemma upsert_each_fail_fast:
  "map (upsert_request E sta m) items = map Inr rqs \<Longrightarrow>
     fst (upsert_each E sta m items st) = verdict ok (fail_fast E ok rqs (world st))
     \<and> sent (snd (upsert_each E sta m items st)) = sent st @ fail_fast E ok rqs (world st)"
proof (induction items arbitrary: rqs st)
  case Nil
  then show ?case by simp
next
  case (Cons entity rest)
  then obtain rq rqs' where rqs: "rqs = rq # rqs'"
    "upsert_request E sta m entity = Inr rq"
    "map (upsert_request E sta m) rest = map Inr rqs'"
    by (cases rqs) auto
  obtain out st1 where call: "http_call E rq st = (out, st1)"
    by (cases "http_call E rq st") auto
  note c = http_call_sent [OF call]
  show ?case
  proof (cases out)
    case (Inl msg)
    with rqs call c show ?thesis by (simp add: answered_def)
  next
    case (Inr r)
    show ?thesis
    proof (cases "ok r")
      case False
      with Inr rqs call c show ?thesis by (simp add: answered_def)
    next
      case True
      with Inr rqs call c Cons.IH [OF rqs(3), of st1] show ?thesis
        by (simp add: answered_def)
    qed
  qed
qed

lemma delete_each_fail_fast:
  "map (\<lambda>item. py_getitem item ''@iot.id'') items = map Inr ids \<Longrightarrow>
   map (py_format E) ids = map Inr segs \<Longrightarrow>
     fst (delete_each E sta items st)
       = verdict (\<lambda>r. status_code r = 200)
           (fail_fast E (\<lambda>r. status_code r = 200) (map (delete_request sta) segs) (world st))
     \<and> sent (snd (delete_each E sta items st))
       = sent st
           @ fail_fast E (\<lambda>r. status_code r = 200) (map (delete_request sta) segs) (world st)"
proof (induction items arbitrary: ids segs st)
  case Nil
  then show ?case by simp
next
  case (Cons item rest)
  from Cons.prems(1) obtain i ids' where ids: "ids = i # ids'"
    "py_getitem item ''@iot.id'' = Inr i"
    "map (\<lambda>item. py_getitem item ''@iot.id'') rest = map Inr ids'"
    by (cases ids) auto
  from Cons.prems(2) ids(1) obtain seg segs' where segs: "segs = seg # segs'"
    "py_format E i = Inr seg" "map (py_format E) ids' = map Inr segs'"
    by (cases segs) auto
  let ?rq = "delete_request sta seg"
  obtain out st1 where call: "http_call E ?rq st = (out, st1)"
    by (cases "http_call E ?rq st") auto
  note c = http_call_sent [OF call]
  show ?case
  proof (cases out)
    case (Inl msg)
    with ids segs call c show ?thesis by (simp add: answered_def)
  next
    case (Inr r)
    show ?thesis
    proof (cases "status_code r = 200")
      case False
      with Inr ids segs call c show ?thesis by (simp add: answered_def log_call_def)
    next
      case True
      with Inr ids segs call c Cons.IH [OF ids(3) segs(3), of st1] show ?thesis
        by (simp add: answered_def)
    qed
  qed
qed

text \<open>What a batch that fails fast is: a prefix of the requests, in order, failing last.\<close>

lemma fail_fast_prefix:
  "map fst (fail_fast E good rqs w) = take (length (fail_fast E good rqs w)) rqs"
  by (induction rqs arbitrary: w) (auto split: prod.splits)

lemma fail_fast_butlast:
  "\<forall>x\<in>set (butlast (fail_fast E good rqs w)). answered good x"
  by (induction rqs arbitrary: w) (auto split: prod.splits)

lemma fail_fast_complete:
  "(\<forall>x\<in>set (fail_fast E good rqs w). answered good x)
     \<longleftrightarrow> verdict good (fail_fast E good rqs w) = Inr True"
proof (induction rqs arbitrary: w)
  case Nil
  show ?case by simp
next
  case (Cons rq rqs)
  obtain out w' where h: "http E w rq = (out, w')" by (cases "http E w rq") auto
  show ?case
  proof (cases "answered good (rq, out)")
    case True
    then obtain r where "out = Inr r" "good r"
      by (cases out) (auto simp: answered_def)
    with True h Cons [of w'] show ?thesis by simp
  next
    case False
    then have "verdict good [(rq, out)] \<noteq> Inr True"
      by (cases out) (auto simp: answered_def)
    with False h show ?thesis by simp
  qed
qed

lemma fail_fast_all:
  "verdict good (fail_fast E good rqs w) = Inr True \<Longrightarrow>
     map fst (fail_fast E good rqs w) = rqs"
  by (induction rqs arbitrary: w)
     (auto simp: answered_def split: prod.splits sum.splits if_splits)

lemma fail_fast_False:
  "verdict good (fail_fast E good rqs w) = Inr False \<longleftrightarrow>
     fail_fast E good rqs w \<noteq> []
     \<and> answered (\<lambda>r. \<not> good r) (last (fail_fast E good rqs w))"
  by (induction rqs arbitrary: w)
     (auto simp: answered_def split: prod.splits sum.splits if_splits)

lemma py_str_int_small: "py_str_int 1 = ''1''" "py_str_int 2 = ''2''"
  by (simp_all add: py_str_int_def py_str_nat.simps digit_char_def char_of_eq_iff)

lemma py_format_small:
  "py_format E (PyInt 1) = Inr ''1''" "py_format E (PyInt 2) = Inr ''2''"
  by (auto simp: py_format_def py_str_int_limited_def limit_exceeded_def py_str_int_def
        py_str_nat.simps digit_char_def char_of_eq_iff)

lemma py_format_PyStr: "py_format E (PyStr s) = Inr s"
  by (simp add: py_format_def)

section \<open>The run of \<^verbatim>\<open>delete_collection\<close>\<close>

lemma py_getitem_iot_id: "py_getitem (PyDict [(''@iot.id'', i)]) ''@iot.id'' = Inr i"
  by (simp add: py_getitem_def)

lemma delete_collection_run:
  assumes "delete_collection E self collection_id st = (Inr b, st')"
  shows "\<exists>r st1 response v items.
           http_call E \<lparr>req_verb = HttpGet, req_url = sta_id E self collection_id,
                          req_data = None\<rparr> st = (Inr r, st1)
           \<and> json_body r = Inr response \<and> py_getitem response ''value'' = Inr v
           \<and> py_iter v = Inr items
           \<and> delete_each E (sta_id E self collection_id) items st1 = (Inr b, st')"
  using assms
  by (auto simp: delete_collection_def Let_def split: prod.splits sum.splits)

lemma delete_collection_trace:
  assumes "delete_collection E self collection_id st = (Inr b, st')"
  shows "\<exists>r response v items xs.
        sent st' = sent st
           @ (\<lparr>req_verb = HttpGet, req_url = sta_id E self collection_id, req_data = None\<rparr>,
              Inr r) # xs
        \<and> json_body r = Inr response \<and> py_getitem response ''value'' = Inr v
        \<and> py_iter v = Inr items
        \<and> length xs \<le> length items
        \<and> (\<forall>k<length xs. \<exists>i seg. py_getitem (items ! k) ''@iot.id'' = Inr i
               \<and> py_format E i = Inr seg
               \<and> fst (xs ! k)
                   = \<lparr>req_verb = HttpDelete,
                      req_url = sta_id E self collection_id @ ''('' @ seg @ '')'',
                      req_data = None\<rparr>)
        \<and> (b \<longrightarrow> length xs = length items
                 \<and> (\<forall>x\<in>set xs. answered (\<lambda>r. status_code r = 200) x))
        \<and> (\<not> b \<longrightarrow> xs \<noteq> [] \<and> answered (\<lambda>r. status_code r \<noteq> 200) (last xs)
                 \<and> (\<forall>x\<in>set (butlast xs). answered (\<lambda>r. status_code r = 200) x))"
proof -
  let ?sta = "sta_id E self collection_id"
  let ?get = "\<lparr>req_verb = HttpGet, req_url = ?sta, req_data = None\<rparr>"
  let ?P = "\<lambda>item x. \<exists>i seg. py_getitem item ''@iot.id'' = Inr i
                  \<and> py_format E i = Inr seg \<and> fst x = delete_request ?sta seg"
  from delete_collection_run [OF assms] obtain r st1 response v items where
    run: "http_call E ?get st = (Inr r, st1)" "json_body r = Inr response"
      "py_getitem response ''value'' = Inr v" "py_iter v = Inr items"
      "delete_each E ?sta items st1 = (Inr b, st')"
    by blast
  have s1: "sent st1 = sent st @ [(?get, Inr r)]"
    using http_call_sent [OF run(1)] by simp
  from delete_each_trace [OF run(5)] obtain xs where
    xs: "sent st' = sent st1 @ xs" "length xs \<le> length items"
      "list_all2 ?P (take (length xs) items) xs"
      "Inr b = (Inr True :: py_error + bool) \<longrightarrow> length xs = length items
          \<and> (\<forall>x\<in>set xs. answered (\<lambda>r. status_code r = 200) x)"
      "Inr b = (Inr False :: py_error + bool) \<longrightarrow> xs \<noteq> []
          \<and> answered (\<lambda>r. status_code r \<noteq> 200) (last xs)
          \<and> (\<forall>x\<in>set (butlast xs). answered (\<lambda>r. status_code r = 200) x)"
    by blast
  have each: "\<forall>k<length xs. \<exists>i seg. py_getitem (items ! k) ''@iot.id'' = Inr i
               \<and> py_format E i = Inr seg
               \<and> fst (xs ! k)
                   = \<lparr>req_verb = HttpDelete,
                      req_url = ?sta @ ''('' @ seg @ '')'', req_data = None\<rparr>"
  proof (intro allI impI)
    fix k assume "k < length xs"
    from list_all2_take_nth [OF xs(3) xs(2) this]
    show "\<exists>i seg. py_getitem (items ! k) ''@iot.id'' = Inr i
               \<and> py_format E i = Inr seg
               \<and> fst (xs ! k)
                   = \<lparr>req_verb = HttpDelete,
                      req_url = ?sta @ ''('' @ seg @ '')'', req_data = None\<rparr>"
      by (simp add: delete_request_def)
  qed
  have "sent st' = sent st @ (?get, Inr r) # xs"
    using xs(1) s1 by simp
  with run(2-4) xs(2) each xs(4,5) show ?thesis
    by (intro exI [of _ r] exI [of _ response] exI [of _ v] exI [of _ items] exI [of _ xs])
       simp
qed

text \<open>
  With a listing whose items all have an identifier that \<^verbatim>\<open>str\<close> can write, the run is
  the GET and then the batch of DELETE calls that fails fast on a status other than 200.
\<close>

lemma delete_collection_batch:
  assumes get: "http E (world st) \<lparr>req_verb = HttpGet, req_url = sta_id E self collection_id,
                          req_data = None\<rparr> = (Inr g, w1)"
    and listing: "json_body g = Inr listing" "py_getitem listing ''value'' = Inr v"
      "py_iter v = Inr items"
    and ids: "map (\<lambda>item. py_getitem item ''@iot.id'') items = map Inr ids"
      "map (py_format E) ids = map Inr segs"
    and calls: "calls = fail_fast E (\<lambda>r. status_code r = 200)
                 (map (\<lambda>seg. \<lparr>req_verb = HttpDelete,
                                req_url = sta_id E self collection_id @ ''('' @ seg @ '')'',
                                req_data = None\<rparr>) segs) w1"
  shows "fst (delete_collection E self collection_id st)
           = verdict (\<lambda>r. status_code r = 200) calls
     \<and> sent (snd (delete_collection E self collection_id st))
           = sent st
             @ (\<lparr>req_verb = HttpGet, req_url = sta_id E self collection_id,
                  req_data = None\<rparr>, Inr g) # calls"
proof -
  let ?sta = "sta_id E self collection_id"
  let ?get = "\<lparr>req_verb = HttpGet, req_url = ?sta, req_data = None\<rparr>"
  let ?st1 = "st\<lparr>world := w1, sent := sent st @ [(?get, Inr g)]\<rparr>"
  have call: "http_call E ?get st = (Inr g, ?st1)"
    using get by (simp add: http_call_def)
  have run: "delete_collection E self collection_id st = delete_each E ?sta items ?st1"
    using call listing by (simp add: delete_collection_def Let_def)
  have rqs: "map (delete_request ?sta) segs
               = map (\<lambda>seg. \<lparr>req_verb = HttpDelete, req_url = ?sta @ ''('' @ seg @ '')'',
                              req_data = None\<rparr>) segs"
    by (simp add: delete_request_def)
  from delete_each_fail_fast [OF ids, of ?sta ?st1] show ?thesis
    using run calls rqs by simp
qed

lemma delete_collection_two_items:
  assumes get: "http E (world st) \<lparr>req_verb = HttpGet, req_url = sta_id E self collection_id,
                          req_data = None\<rparr> = (Inr r, w1)"
    and listing: "json_body r = Inr response"
      "py_getitem response ''value''
         = Inr (PyList [PyDict [(''@iot.id'', PyInt 1)], PyDict [(''@iot.id'', PyInt 2)]])"
    and first: "http E w1 \<lparr>req_verb = HttpDelete,
                   req_url = sta_id E self collection_id @ ''(1)'', req_data = None\<rparr>
                  = (Inr d1, w2)" "status_code d1 = 200"
    and second: "http E w2 \<lparr>req_verb = HttpDelete,
                   req_url = sta_id E self collection_id @ ''(2)'', req_data = None\<rparr>
                  = (Inr d2, w3)"
  shows "fst (delete_collection E self collection_id st) = Inr (status_code d2 = 200)
     \<and> sent (snd (delete_collection E self collection_id st))
        = sent st
          @ [(\<lparr>req_verb = HttpGet, req_url = sta_id E self collection_id, req_data = None\<rparr>,
              Inr r),
             (\<lparr>req_verb = HttpDelete, req_url = sta_id E self collection_id @ ''(1)'',
                req_data = None\<rparr>, Inr d1),
             (\<lparr>req_verb = HttpDelete, req_url = sta_id E self collection_id @ ''(2)'',
                req_data = None\<rparr>, Inr d2)]"
  using assms
  by (simp add: delete_collection_def Let_def http_call_def py_iter_def py_getitem_iot_id
        py_format_small delete_request_def log_call_def)

section \<open>The request of each branch of \<^verbatim>\<open>upsert_collection_items\<close>\<close>

lemma upsert_request_cases:
  assumes "upsert_request E sta method entity = Inr rq"
  shows "(method = ''POST'' \<and> (\<exists>body. to_json E entity = Inr body
              \<and> rq = \<lparr>req_verb = HttpPost, req_url = sta, req_data = Some body\<rparr>))
       \<or> (method = ''PATCH'' \<and> (\<exists>i seg body. py_getitem entity ''@iot.id'' = Inr i
              \<and> py_format E i = Inr seg \<and> to_json E entity = Inr body
              \<and> rq = \<lparr>req_verb = HttpPatch,
                      req_url = sta @ ''('' @ [apostrophe] @ seg @ [apostrophe] @ '')'',
                      req_data = Some body\<rparr>))
       \<or> (method = ''DELETE'' \<and> (\<exists>i seg. py_getitem entity ''@iot.id'' = Inr i
              \<and> py_format E i = Inr seg
              \<and> rq = \<lparr>req_verb = HttpDelete, req_url = sta @ ''('' @ seg @ '')'',
                      req_data = None\<rparr>))"
  using assms
  by (auto simp: upsert_request_def delete_request_def split: if_splits sum.splits)

lemma upsert_requests_POST:
  "map (to_json E) items = map Inr bodies \<Longrightarrow>
     map (upsert_request E sta ''POST'') items
       = map Inr (map (\<lambda>body. \<lparr>req_verb = HttpPost, req_url = sta, req_data = Some body\<rparr>)
                    bodies)"
proof (induction items arbitrary: bodies)
  case Nil
  then show ?case by simp
next
  case (Cons entity rest)
  then obtain body bodies' where "bodies = body # bodies'" "to_json E entity = Inr body"
    "map (to_json E) rest = map Inr bodies'"
    by (cases bodies) auto
  with Cons.IH [of bodies'] show ?case by (simp add: upsert_request_def)
qed

lemma upsert_requests_DELETE:
  "map (\<lambda>entity. py_getitem entity ''@iot.id'') items = map Inr ids \<Longrightarrow>
   map (py_format E) ids = map Inr segs \<Longrightarrow>
     map (upsert_request E sta ''DELETE'') items
       = map Inr (map (\<lambda>seg. \<lparr>req_verb = HttpDelete, req_url = sta @ ''('' @ seg @ '')'',
                               req_data = None\<rparr>) segs)"
proof (induction items arbitrary: ids segs)
  case Nil
  then show ?case by simp
next
  case (Cons entity rest)
  from Cons.prems(1) obtain i ids' where ids: "ids = i # ids'"
    "py_getitem entity ''@iot.id'' = Inr i"
    "map (\<lambda>entity. py_getitem entity ''@iot.id'') rest = map Inr ids'"
    by (cases ids) auto
  from Cons.prems(2) ids(1) obtain seg segs' where segs: "segs = seg # segs'"
    "py_format E i = Inr seg" "map (py_format E) ids' = map Inr segs'"
    by (cases segs) auto
  from Cons.IH [OF ids(3) segs(3)] ids segs show ?case
    by (simp add: upsert_request_def delete_request_def)
qed

lemma upsert_requests_PATCH:
  "map (\<lambda>entity. py_getitem entity ''@iot.id'') items = map Inr ids \<Longrightarrow>
   map (py_format E) ids = map Inr segs \<Longrightarrow>
   map (to_json E) items = map Inr bodies \<Longrightarrow>
     map (upsert_request E sta ''PATCH'') items
       = map Inr (map (\<lambda>(seg, body).
                        \<lparr>req_verb = HttpPatch,
                         req_url = sta @ ''('' @ [apostrophe] @ seg @ [apostrophe] @ '')'',
                         req_data = Some body\<rparr>) (zip segs bodies))"
proof (induction items arbitrary: ids segs bodies)
  case Nil
  then show ?case by simp
next
  case (Cons entity rest)
  from Cons.prems(1) obtain i ids' where ids: "ids = i # ids'"
    "py_getitem entity ''@iot.id'' = Inr i"
    "map (\<lambda>entity. py_getitem entity ''@iot.id'') rest = map Inr ids'"
    by (cases ids) auto
  from Cons.prems(2) ids(1) obtain seg segs' where segs: "segs = seg # segs'"
    "py_format E i = Inr seg" "map (py_format E) ids' = map Inr segs'"
    by (cases segs) auto
  from Cons.prems(3) obtain body bodies' where bodies: "bodies = body # bodies'"
    "to_json E entity = Inr body" "map (to_json E) rest = map Inr bodies'"
    by (cases bodies) auto
  from Cons.IH [OF ids(3) segs(3) bodies(3)] ids segs bodies show ?case
    by (simp add: upsert_request_def)
qed

section \<open>The single call of \<^verbatim>\<open>delete_collection_item\<close>\<close>

text \<open>
  The f-string of line 145 never raises: the identifier is a string, or an integer that
  \<^verbatim>\<open>int\<close> has just read from a numeral within the limit.
\<close>

lemma py_format_coerce_item_id:
  "py_format E (coerce_item_id E item_id)
     = Inr (case py_int (max_str_digits E) item_id of
              Some n \<Rightarrow> py_str_int n
            | None \<Rightarrow> [apostrophe] @ item_id @ [apostrophe])"
proof (cases "py_int (max_str_digits E) item_id")
  case None
  then show ?thesis by (simp add: coerce_item_id_def py_format_def)
next
  case (Some n)
  then have "int_literal (max_str_digits E) item_id n" by (simp add: py_int_iff)
  then have "py_str_int_limited (max_str_digits E) n = Inr (py_str_int n)"
    by (rule int_literal_within_limit)
  with Some show ?thesis by (simp add: coerce_item_id_def py_format_def)
qed

lemma delete_collection_item_request:
  "map fst (sent (snd (delete_collection_item E self collection_id item_id st)))
     = map fst (sent st)
         @ [delete_request (sta_id E self collection_id)
              (case py_int (max_str_digits E) item_id of
                 Some n \<Rightarrow> py_str_int n
               | None \<Rightarrow> [apostrophe] @ item_id @ [apostrophe])]"
proof -
  let ?st0 = "log_call DEBUG (''Deleting '' @ item_id @ '' from '' @ collection_id) st"
  let ?seg = "case py_int (max_str_digits E) item_id of
                 Some n \<Rightarrow> py_str_int n
               | None \<Rightarrow> [apostrophe] @ item_id @ [apostrophe]"
  let ?rq = "delete_request (sta_id E self collection_id) ?seg"
  obtain out st1 where call: "http_call E ?rq ?st0 = (out, st1)"
    by (cases "http_call E ?rq ?st0") auto
  have "sent st1 = sent st @ [(?rq, out)]"
    using http_call_sent [OF call] by (simp add: log_call_def)
  then show ?thesis
    using call
    by (cases out)
       (simp_all add: delete_collection_item_def py_format_coerce_item_id log_call_def)
qed

section \<open>The claims\<close>

text \<open>
  C1. \<^verbatim>\<open>delete_collection\<close> first sends a GET to the collection's endpoint and reads
  the items under \<^verbatim>\<open>value\<close>; the calls that follow are DELETE calls, one for each item
  in the order of the listing, to the endpoint followed by the item's \<^verbatim>\<open>@iot.id\<close> in
  parentheses. The status the code counts as success is 200 alone. Three statements.
  First, of a run that returns a boolean: when it is \<^verbatim>\<open>True\<close>, every item has had its DELETE
  and every answer had status 200; when it is \<^verbatim>\<open>False\<close>, the last DELETE sent is the first
  whose status is not 200. Second, of every listing whose items all have an identifier
  that \<^verbatim>\<open>str\<close> can write, whatever the service does: the run is the GET followed by
  the batch of the items' DELETE calls that fails fast, and it returns the verdict of
  that batch; so it returns \<^verbatim>\<open>True\<close>, after one DELETE for each item, when every DELETE
  comes back with 200, and \<^verbatim>\<open>False\<close> when the last DELETE made comes back with another
  status. Third, the scenario of the listing \<^verbatim>\<open>[{"@iot.id":1},{"@iot.id":2}]\<close>: once the
  first DELETE has come back with 200, exactly two DELETE calls are made and the result
  is \<^verbatim>\<open>False\<close> when the second comes back with another status (and \<^verbatim>\<open>True\<close> when it
  comes back with 200).
\<close>

theorem delete_collection_fail_fast:
  "(delete_collection E self collection_id st = (Inr b, st') \<longrightarrow>
     (\<exists>r response v items xs.
        sent st' = sent st
           @ (\<lparr>req_verb = HttpGet, req_url = sta_id E self collection_id, req_data = None\<rparr>,
              Inr r) # xs
        \<and> json_body r = Inr response \<and> py_getitem response ''value'' = Inr v
        \<and> py_iter v = Inr items
        \<and> length xs \<le> length items
        \<and> (\<forall>k<length xs. \<exists>i seg. py_getitem (items ! k) ''@iot.id'' = Inr i
               \<and> py_format E i = Inr seg
               \<and> fst (xs ! k)
                   = \<lparr>req_verb = HttpDelete,
                      req_url = sta_id E self collection_id @ ''('' @ seg @ '')'',
                      req_data = None\<rparr>)
        \<and> (b \<longrightarrow> length xs = length items
                 \<and> (\<forall>x\<in>set xs. answered (\<lambda>r. status_code r = 200) x))
        \<and> (\<not> b \<longrightarrow> xs \<noteq> [] \<and> answered (\<lambda>r. status_code r \<noteq> 200) (last xs)
                 \<and> (\<forall>x\<in>set (butlast xs). answered (\<lambda>r. status_code r = 200) x))))
   \<and> (http E (world st) \<lparr>req_verb = HttpGet, req_url = sta_id E self collection_id,
                            req_data = None\<rparr> = (Inr g, w1)
        \<and> json_body g = Inr listing
        \<and> py_getitem listing ''value'' = Inr v
        \<and> py_iter v = Inr items
        \<and> map (\<lambda>item. py_getitem item ''@iot.id'') items = map Inr ids
        \<and> map (py_format E) ids = map Inr segs
        \<and> calls = fail_fast E (\<lambda>r. status_code r = 200)
                     (map (\<lambda>seg. \<lparr>req_verb = HttpDelete,
                                    req_url = sta_id E self collection_id @ ''('' @ seg @ '')'',
                                    req_data = None\<rparr>) segs) w1
      \<longrightarrow>
        fst (delete_collection E self collection_id st)
          = verdict (\<lambda>r. status_code r = 200) calls
        \<and> sent (snd (delete_collection E self collection_id st))
           = sent st
             @ (\<lparr>req_verb = HttpGet, req_url = sta_id E self collection_id,
                  req_data = None\<rparr>, Inr g) # calls
        \<and> ((\<forall>x\<in>set calls. answered (\<lambda>r. status_code r = 200) x) \<longrightarrow>
              fst (delete_collection E self collection_id st) = Inr True
              \<and> length calls = length items)
        \<and> (calls \<noteq> [] \<and> answered (\<lambda>r. status_code r \<noteq> 200) (last calls) \<longrightarrow>
              fst (delete_collection E self collection_id st) = Inr False))
   \<and> (http E (world st) \<lparr>req_verb = HttpGet, req_url = sta_id E self collection_id,
                            req_data = None\<rparr> = (Inr g, w1)
        \<and> json_body g = Inr listing
        \<and> py_getitem listing ''value''
             = Inr (PyList [PyDict [(''@iot.id'', PyInt 1)], PyDict [(''@iot.id'', PyInt 2)]])
        \<and> http E w1 \<lparr>req_verb = HttpDelete,
                       req_url = sta_id E self collection_id @ ''(1)'', req_data = None\<rparr>
             = (Inr d1, w2)
        \<and> status_code d1 = 200
        \<and> http E w2 \<lparr>req_verb = HttpDelete,
                       req_url = sta_id E self collection_id @ ''(2)'', req_data = None\<rparr>
             = (Inr d2, w3)
      \<longrightarrow>
        fst (delete_collection E self collection_id st) = Inr (status_code d2 = 200)
        \<and> sent (snd (delete_collection E self collection_id st))
           = sent st
             @ [(\<lparr>req_verb = HttpGet, req_url = sta_id E self collection_id,
                   req_data = None\<rparr>, Inr g),
                (\<lparr>req_verb = HttpDelete, req_url = sta_id E self collection_id @ ''(1)'',
                   req_data = None\<rparr>, Inr d1),
                (\<lparr>req_verb = HttpDelete, req_url = sta_id E self collection_id @ ''(2)'',
                   req_data = None\<rparr>, Inr d2)])"
  (is "(?run \<longrightarrow> ?trace) \<and> (?listed \<longrightarrow> ?batch) \<and> (?two \<longrightarrow> ?scenario)")
proof -
  have t1: "?run \<longrightarrow> ?trace"
    by (intro impI) (rule delete_collection_trace)
  have t2: "?listed \<longrightarrow> ?batch"
  proof
  assume a: ?listed
  let ?good = "\<lambda>r. status_code r = 200"
  let ?rqs = "map (\<lambda>seg. \<lparr>req_verb = HttpDelete,
                            req_url = sta_id E self collection_id @ ''('' @ seg @ '')'',
                            req_data = None\<rparr>) segs"
  from a have calls: "calls = fail_fast E ?good ?rqs w1" by simp
  have len: "length items = length segs"
    using a by (metis length_map)
  have run: "fst (delete_collection E self collection_id st) = verdict ?good calls
     \<and> sent (snd (delete_collection E self collection_id st))
           = sent st
             @ (\<lparr>req_verb = HttpGet, req_url = sta_id E self collection_id,
                  req_data = None\<rparr>, Inr g) # calls"
    using a by (elim conjE) (rule delete_collection_batch; assumption)
  have all: "(\<forall>x\<in>set calls. answered ?good x) \<longrightarrow>
              fst (delete_collection E self collection_id st) = Inr True
              \<and> length calls = length items"
  proof
    assume "\<forall>x\<in>set calls. answered ?good x"
    then have v: "verdict ?good calls = Inr True"
      unfolding calls by (simp add: fail_fast_complete)
    then have "map fst calls = ?rqs"
      unfolding calls by (rule fail_fast_all)
    then have "length calls = length segs" by (metis length_map)
    with v run len show "fst (delete_collection E self collection_id st) = Inr True
              \<and> length calls = length items"
      by simp
  qed
  have bad: "calls \<noteq> [] \<and> answered (\<lambda>r. status_code r \<noteq> 200) (last calls) \<longrightarrow>
              fst (delete_collection E self collection_id st) = Inr False"
    using run fail_fast_False [of ?good E ?rqs w1] unfolding calls by simp
  from run all bad show ?batch by (intro conjI) simp_all
  qed
  have t3: "?two \<longrightarrow> ?scenario"
  proof
    assume a: ?two
    show ?scenario
      using a by (elim conjE) (rule delete_collection_two_items; assumption)
  qed
  show ?thesis by (rule conjI [OF t1 conjI [OF t2 t3]])
qed

theorem delete_collection_fail_fast_witness:
  "fst (delete_collection demo_env demo_backend ''a.Things''
          (fresh [Inr (reply 200 (Inr two_items)), Inr (plain 200), Inr (plain 500),
                  Inr (plain 200)]))
     = Inr False
   \<and> sent (snd (delete_collection demo_env demo_backend ''a.Things''
          (fresh [Inr (reply 200 (Inr two_items)), Inr (plain 200), Inr (plain 500),
                  Inr (plain 200)])))
     = [(\<lparr>req_verb = HttpGet, req_url = ''http://sta/v1.1/Things'', req_data = None\<rparr>,
         Inr (reply 200 (Inr two_items))),
        (\<lparr>req_verb = HttpDelete, req_url = ''http://sta/v1.1/Things(1)'', req_data = None\<rparr>,
         Inr (plain 200)),
        (\<lparr>req_verb = HttpDelete, req_url = ''http://sta/v1.1/Things(2)'', req_data = None\<rparr>,
         Inr (plain 500))]
   \<and> (\<exists>r xs. sent (snd (delete_collection demo_env demo_backend ''a.Things''
          (fresh [Inr (reply 200 (Inr two_items)), Inr (plain 200), Inr (plain 500),
                  Inr (plain 200)])))
          = (\<lparr>req_verb = HttpGet, req_url = ''http://sta/v1.1/Things'', req_data = None\<rparr>,
             Inr r) # xs
        \<and> xs \<noteq> [] \<and> answered (\<lambda>r. status_code r \<noteq> 200) (last xs)
        \<and> (\<forall>x\<in>set (butlast xs). answered (\<lambda>r. status_code r = 200) x))
   \<and> fst (delete_collection demo_env demo_backend ''a.Things''
          (fresh [Inr (reply 200 (Inr three_items)), Inr (plain 200), Inr (plain 200),
                  Inr (plain 200)]))
     = Inr True
   \<and> sent (snd (delete_collection demo_env demo_backend ''a.Things''
          (fresh [Inr (reply 200 (Inr three_items)), Inr (plain 200), Inr (plain 200),
                  Inr (plain 200)])))
     = [(\<lparr>req_verb = HttpGet, req_url = ''http://sta/v1.1/Things'', req_data = None\<rparr>,
         Inr (reply 200 (Inr three_items))),
        (\<lparr>req_verb = HttpDelete, req_url = ''http://sta/v1.1/Things(1)'', req_data = None\<rparr>,
         Inr (plain 200)),
        (\<lparr>req_verb = HttpDelete, req_url = ''http://sta/v1.1/Things(2)'', req_data = None\<rparr>,
         Inr (plain 200)),
        (\<lparr>req_verb = HttpDelete, req_url = ''http://sta/v1.1/Things(x7)'', req_data = None\<rparr>,
         Inr (plain 200))]"
proof -
  let ?st = "fresh [Inr (reply 200 (Inr two_items)), Inr (plain 200), Inr (plain 500),
                    Inr (plain 200)]
               :: ((string + unit response) list, unit) session"
  let ?run = "delete_collection demo_env demo_backend ''a.Things'' ?st"
  let ?st3 = "fresh [Inr (reply 200 (Inr three_items)), Inr (plain 200), Inr (plain 200),
                     Inr (plain 200)]
               :: ((string + unit response) list, unit) session"
  let ?run3 = "delete_collection demo_env demo_backend ''a.Things'' ?st3"
  let ?calls3 = "[(\<lparr>req_verb = HttpDelete, req_url = ''http://sta/v1.1/Things(1)'',
                    req_data = None\<rparr>, Inr (plain 200)),
                  (\<lparr>req_verb = HttpDelete, req_url = ''http://sta/v1.1/Things(2)'',
                    req_data = None\<rparr>, Inr (plain 200)),
                  (\<lparr>req_verb = HttpDelete, req_url = ''http://sta/v1.1/Things(x7)'',
                    req_data = None\<rparr>, Inr (plain 200))]
                 :: (request \<times> (string + unit response)) list"
  have sta: "sta_id demo_env demo_backend ''a.Things'' = ''http://sta/v1.1/Things''"
    by (simp add: sta_id_def demo_env_def demo_backend_def)
  have svc: "http demo_env = scripted"
    by (simp add: demo_env_def)
  have hyp: "http demo_env (world ?st)
          \<lparr>req_verb = HttpGet, req_url = sta_id demo_env demo_backend ''a.Things'',
             req_data = None\<rparr>
        = (Inr (reply 200 (Inr two_items)),
           [Inr (plain 200), Inr (plain 500), Inr (plain 200)])
      \<and> json_body (reply 200 (Inr two_items)) = Inr two_items
      \<and> py_getitem two_items ''value''
          = Inr (PyList [PyDict [(''@iot.id'', PyInt 1)], PyDict [(''@iot.id'', PyInt 2)]])
      \<and> http demo_env [Inr (plain 200), Inr (plain 500), Inr (plain 200)]
          \<lparr>req_verb = HttpDelete,
             req_url = sta_id demo_env demo_backend ''a.Things'' @ ''(1)'', req_data = None\<rparr>
        = (Inr (plain 200), [Inr (plain 500), Inr (plain 200)])
      \<and> status_code (plain 200) = 200
      \<and> http demo_env [Inr (plain 500), Inr (plain 200)]
          \<lparr>req_verb = HttpDelete,
             req_url = sta_id demo_env demo_backend ''a.Things'' @ ''(2)'', req_data = None\<rparr>
        = (Inr (plain 500), [Inr (plain 200)])"
    by (simp add: svc scripted_def fresh_def reply_def plain_def two_items_def py_getitem_def)
  have bad: "status_code (plain 500) \<noteq> 200"
    by (simp add: reply_def plain_def)
  have scenario: "fst ?run = Inr False
     \<and> sent (snd ?run)
       = [(\<lparr>req_verb = HttpGet, req_url = ''http://sta/v1.1/Things'', req_data = None\<rparr>,
           Inr (reply 200 (Inr two_items))),
          (\<lparr>req_verb = HttpDelete, req_url = ''http://sta/v1.1/Things(1)'', req_data = None\<rparr>,
           Inr (plain 200)),
          (\<lparr>req_verb = HttpDelete, req_url = ''http://sta/v1.1/Things(2)'', req_data = None\<rparr>,
           Inr (plain 500))]"
    using delete_collection_fail_fast [THEN conjunct2, THEN conjunct2, rule_format, OF hyp] bad
    by (simp add: sta fresh_def)
  then have "?run = (Inr False, snd ?run)"
    by (simp add: prod_eq_iff)
  from delete_collection_fail_fast [THEN conjunct1, rule_format, OF this]
  obtain r xs where
    "sent (snd ?run) = sent ?st
        @ (\<lparr>req_verb = HttpGet, req_url = sta_id demo_env demo_backend ''a.Things'',
              req_data = None\<rparr>, Inr r) # xs"
    "xs \<noteq> [] \<and> answered (\<lambda>r. status_code r \<noteq> 200) (last xs)
        \<and> (\<forall>x\<in>set (butlast xs). answered (\<lambda>r. status_code r = 200) x)"
    by auto
  then have trace: "\<exists>r xs. sent (snd ?run)
          = (\<lparr>req_verb = HttpGet, req_url = ''http://sta/v1.1/Things'', req_data = None\<rparr>,
             Inr r) # xs
        \<and> xs \<noteq> [] \<and> answered (\<lambda>r. status_code r \<noteq> 200) (last xs)
        \<and> (\<forall>x\<in>set (butlast xs). answered (\<lambda>r. status_code r = 200) x)"
    by (intro exI [of _ r] exI [of _ xs]) (simp add: sta fresh_def)
  have hyp3: "http demo_env (world ?st3)
          \<lparr>req_verb = HttpGet, req_url = sta_id demo_env demo_backend ''a.Things'',
             req_data = None\<rparr>
        = (Inr (reply 200 (Inr three_items)),
           [Inr (plain 200), Inr (plain 200), Inr (plain 200)])
      \<and> json_body (reply 200 (Inr three_items)) = Inr three_items
      \<and> py_getitem three_items ''value''
          = Inr (PyList [iot_item (PyInt 1), iot_item (PyInt 2), iot_item (PyStr ''x7'')])
      \<and> py_iter (PyList [iot_item (PyInt 1), iot_item (PyInt 2), iot_item (PyStr ''x7'')])
          = Inr [iot_item (PyInt 1), iot_item (PyInt 2), iot_item (PyStr ''x7'')]
      \<and> map (\<lambda>item. py_getitem item ''@iot.id'')
            [iot_item (PyInt 1), iot_item (PyInt 2), iot_item (PyStr ''x7'')]
          = map Inr [PyInt 1, PyInt 2, PyStr ''x7'']
      \<and> map (py_format demo_env) [PyInt 1, PyInt 2, PyStr ''x7'']
          = map Inr [''1'', ''2'', ''x7'']
      \<and> ?calls3 = fail_fast demo_env (\<lambda>r. status_code r = 200)
                     (map (\<lambda>seg. \<lparr>req_verb = HttpDelete,
                                    req_url = sta_id demo_env demo_backend ''a.Things''
                                                @ ''('' @ seg @ '')'',
                                    req_data = None\<rparr>) [''1'', ''2'', ''x7''])
                     [Inr (plain 200), Inr (plain 200), Inr (plain 200)]"
    by (simp add: svc scripted_def fresh_def reply_def plain_def three_items_def py_getitem_def
          py_iter_def iot_item_def py_format_small py_format_PyStr sta answered_def)
  have all3: "\<forall>x\<in>set ?calls3. answered (\<lambda>r. status_code r = 200) x"
    by (simp add: answered_def plain_def reply_def)
  from delete_collection_fail_fast [THEN conjunct2, THEN conjunct1, rule_format, OF hyp3] all3
  have three: "fst ?run3 = Inr True
     \<and> sent (snd ?run3)
        = [(\<lparr>req_verb = HttpGet, req_url = ''http://sta/v1.1/Things'', req_data = None\<rparr>,
            Inr (reply 200 (Inr three_items)))] @ ?calls3"
    by (simp add: sta fresh_def plain_def reply_def)
  from scenario trace three show ?thesis by simp
qed

text \<open>
  C2. Four statements on \<^verbatim>\<open>upsert_collection_items\<close>. First, of a run that returns a
  boolean: the calls it has made are one for each item it reached, in the order of the
  list, each the call of the method (for \<^verbatim>\<open>POST\<close> a POST of \<^verbatim>\<open>to_json\<close> of the item to
  the endpoint, for \<^verbatim>\<open>PATCH\<close> a PATCH of \<^verbatim>\<open>to_json\<close> of the item to the endpoint followed
  by the item's \<^verbatim>\<open>@iot.id\<close> in parentheses and quotes, for \<^verbatim>\<open>DELETE\<close> a DELETE to the
  endpoint followed by the item's \<^verbatim>\<open>@iot.id\<close> in parentheses); when the result is
  \<^verbatim>\<open>True\<close>, every item has had its call and every response was \<^verbatim>\<open>ok\<close>; when it is
  \<^verbatim>\<open>False\<close>, the last call made is the first whose response is not \<^verbatim>\<open>ok\<close>. Then, for
  each of the three methods and whatever the service does: when every item of the list
  has what the branch reads (a body from \<^verbatim>\<open>to_json\<close> for \<^verbatim>\<open>POST\<close> and \<^verbatim>\<open>PATCH\<close>, an
  \<^verbatim>\<open>@iot.id\<close> that \<^verbatim>\<open>str\<close> can write for \<^verbatim>\<open>PATCH\<close> and \<^verbatim>\<open>DELETE\<close>), the calls made are
  exactly the batch of these requests that fails fast on a response that is not \<^verbatim>\<open>ok\<close>,
  and the result is the verdict of that batch.
\<close>

theorem upsert_dispatch:
  "(upsert_collection_items E self collection_id items method st = (Inr b, st') \<longrightarrow>
     (\<exists>xs. sent st' = sent st @ xs \<and> length xs \<le> length items
      \<and> (\<forall>k<length xs.
            (method = ''POST'' \<and> (\<exists>body. to_json E (items ! k) = Inr body
               \<and> fst (xs ! k) = \<lparr>req_verb = HttpPost, req_url = sta_id E self collection_id,
                                  req_data = Some body\<rparr>))
          \<or> (method = ''PATCH'' \<and> (\<exists>i seg body. py_getitem (items ! k) ''@iot.id'' = Inr i
               \<and> py_format E i = Inr seg \<and> to_json E (items ! k) = Inr body
               \<and> fst (xs ! k) = \<lparr>req_verb = HttpPatch,
                                  req_url = sta_id E self collection_id
                                     @ ''('' @ [apostrophe] @ seg @ [apostrophe] @ '')'',
                                  req_data = Some body\<rparr>))
          \<or> (method = ''DELETE'' \<and> (\<exists>i seg. py_getitem (items ! k) ''@iot.id'' = Inr i
               \<and> py_format E i = Inr seg
               \<and> fst (xs ! k) = \<lparr>req_verb = HttpDelete,
                                  req_url = sta_id E self collection_id @ ''('' @ seg @ '')'',
                                  req_data = None\<rparr>)))
      \<and> (b \<longrightarrow> length xs = length items \<and> (\<forall>x\<in>set xs. answered ok x))
      \<and> (\<not> b \<longrightarrow> xs \<noteq> [] \<and> answered (\<lambda>r. \<not> ok r) (last xs)
               \<and> (\<forall>x\<in>set (butlast xs). answered ok x))))
   \<and> (map (to_json E) items = map Inr bodies
        \<and> calls = fail_fast E ok
                     (map (\<lambda>body. \<lparr>req_verb = HttpPost, req_url = sta_id E self collection_id,
                                     req_data = Some body\<rparr>) bodies) (world st)
      \<longrightarrow>
        fst (upsert_collection_items E self collection_id items ''POST'' st) = verdict ok calls
        \<and> sent (snd (upsert_collection_items E self collection_id items ''POST'' st))
            = sent st @ calls)
   \<and> (map (\<lambda>entity. py_getitem entity ''@iot.id'') items = map Inr ids
        \<and> map (py_format E) ids = map Inr segs
        \<and> map (to_json E) items = map Inr bodies
        \<and> calls = fail_fast E ok
                     (map (\<lambda>(seg, body).
                             \<lparr>req_verb = HttpPatch,
                              req_url = sta_id E self collection_id
                                          @ ''('' @ [apostrophe] @ seg @ [apostrophe] @ '')'',
                              req_data = Some body\<rparr>) (zip segs bodies)) (world st)
      \<longrightarrow>
        fst (upsert_collection_items E self collection_id items ''PATCH'' st) = verdict ok calls
        \<and> sent (snd (upsert_collection_items E self collection_id items ''PATCH'' st))
            = sent st @ calls)
   \<and> (map (\<lambda>entity. py_getitem entity ''@iot.id'') items = map Inr ids
        \<and> map (py_format E) ids = map Inr segs
        \<and> calls = fail_fast E ok
                     (map (\<lambda>seg. \<lparr>req_verb = HttpDelete,
                                    req_url = sta_id E self collection_id @ ''('' @ seg @ '')'',
                                    req_data = None\<rparr>) segs) (world st)
      \<longrightarrow>
        fst (upsert_collection_items E self collection_id items ''DELETE'' st) = verdict ok calls
        \<and> sent (snd (upsert_collection_items E self collection_id items ''DELETE'' st))
            = sent st @ calls)"
  (is "(?run \<longrightarrow> ?trace) \<and> (?hpost \<longrightarrow> ?post) \<and> (?hpatch \<longrightarrow> ?patch) \<and> (?hdelete \<longrightarrow> ?delete)")
proof -
  let ?sta = "sta_id E self collection_id"
  have t1: "?run \<longrightarrow> ?trace"
  proof
    assume ?run
    then have run: "upsert_each E ?sta method items st = (Inr b, st')"
      by (simp add: upsert_collection_items_def)
    from upsert_each_trace [OF run] obtain xs where
      xs: "sent st' = sent st @ xs" "length xs \<le> length items"
        "list_all2 (\<lambda>item x. upsert_request E ?sta method item = Inr (fst x))
           (take (length xs) items) xs"
        "Inr b = (Inr True :: py_error + bool) \<longrightarrow> length xs = length items
            \<and> (\<forall>x\<in>set xs. answered ok x)"
        "Inr b = (Inr False :: py_error + bool) \<longrightarrow> xs \<noteq> []
            \<and> answered (\<lambda>r. \<not> ok r) (last xs) \<and> (\<forall>x\<in>set (butlast xs). answered ok x)"
      by blast
    have each: "\<forall>k<length xs.
            (method = ''POST'' \<and> (\<exists>body. to_json E (items ! k) = Inr body
               \<and> fst (xs ! k) = \<lparr>req_verb = HttpPost, req_url = ?sta, req_data = Some body\<rparr>))
          \<or> (method = ''PATCH'' \<and> (\<exists>i seg body. py_getitem (items ! k) ''@iot.id'' = Inr i
               \<and> py_format E i = Inr seg \<and> to_json E (items ! k) = Inr body
               \<and> fst (xs ! k) = \<lparr>req_verb = HttpPatch,
                                  req_url = ?sta @ ''('' @ [apostrophe] @ seg @ [apostrophe]
                                              @ '')'',
                                  req_data = Some body\<rparr>))
          \<or> (method = ''DELETE'' \<and> (\<exists>i seg. py_getitem (items ! k) ''@iot.id'' = Inr i
               \<and> py_format E i = Inr seg
               \<and> fst (xs ! k) = \<lparr>req_verb = HttpDelete,
                                  req_url = ?sta @ ''('' @ seg @ '')'',
                                  req_data = None\<rparr>))"
    proof (intro allI impI)
      fix k assume "k < length xs"
      from list_all2_take_nth [OF xs(3) xs(2) this]
      have "upsert_request E ?sta method (items ! k) = Inr (fst (xs ! k))" .
      then show "(method = ''POST'' \<and> (\<exists>body. to_json E (items ! k) = Inr body
               \<and> fst (xs ! k) = \<lparr>req_verb = HttpPost, req_url = ?sta, req_data = Some body\<rparr>))
          \<or> (method = ''PATCH'' \<and> (\<exists>i seg body. py_getitem (items ! k) ''@iot.id'' = Inr i
               \<and> py_format E i = Inr seg \<and> to_json E (items ! k) = Inr body
               \<and> fst (xs ! k) = \<lparr>req_verb = HttpPatch,
                                  req_url = ?sta @ ''('' @ [apostrophe] @ seg @ [apostrophe]
                                              @ '')'',
                                  req_data = Some body\<rparr>))
          \<or> (method = ''DELETE'' \<and> (\<exists>i seg. py_getitem (items ! k) ''@iot.id'' = Inr i
               \<and> py_format E i = Inr seg
               \<and> fst (xs ! k) = \<lparr>req_verb = HttpDelete,
                                  req_url = ?sta @ ''('' @ seg @ '')'',
                                  req_data = None\<rparr>))"
        by (rule upsert_request_cases)
    qed
    from xs(1,2) each xs(4,5) show ?trace
      by (intro exI [of _ xs]) simp
  qed
  have t2: "?hpost \<longrightarrow> ?post"
  proof
    assume a: ?hpost
    from a upsert_each_fail_fast [OF upsert_requests_POST, of E items bodies ?sta st]
    show ?post by (simp add: upsert_collection_items_def)
  qed
  have t3: "?hpatch \<longrightarrow> ?patch"
  proof
    assume a: ?hpatch
    from a upsert_each_fail_fast [OF upsert_requests_PATCH, of items ids E segs bodies ?sta st]
    show ?patch by (simp add: upsert_collection_items_def)
  qed
  have t4: "?hdelete \<longrightarrow> ?delete"
  proof
    assume a: ?hdelete
    from a upsert_each_fail_fast [OF upsert_requests_DELETE, of items ids E segs ?sta st]
    show ?delete by (simp add: upsert_collection_items_def)
  qed
  show ?thesis by (rule conjI [OF t1 conjI [OF t2 conjI [OF t3 t4]]])
qed

theorem upsert_dispatch_witness:
  "upsert_collection_items demo_env demo_backend ''a.Things''
      [iot_item (PyInt 1), iot_item (PyStr ''x7''), iot_item (PyInt 2)] ''PATCH''
      (fresh [Inr (plain 200), Inr (plain 404), Inr (plain 200)])
    = (Inr False,
       \<lparr>world = [Inr (plain 200)],
        sent = [(\<lparr>req_verb = HttpPatch,
                  req_url = ''http://sta/v1.1/Things('' @ [apostrophe] @ ''1'' @ [apostrophe]
                              @ '')'',
                  req_data = Some ''{@iot.id}''\<rparr>, Inr (plain 200)),
                (\<lparr>req_verb = HttpPatch,
                  req_url = ''http://sta/v1.1/Things('' @ [apostrophe] @ ''x7'' @ [apostrophe]
                              @ '')'',
                  req_data = Some ''{@iot.id}''\<rparr>, Inr (plain 404))],
        logged = []\<rparr>)
   \<and> (\<exists>xs. xs = [(\<lparr>req_verb = HttpPatch,
                  req_url = ''http://sta/v1.1/Things('' @ [apostrophe] @ ''1'' @ [apostrophe]
                              @ '')'',
                  req_data = Some ''{@iot.id}''\<rparr>, Inr (plain 200)),
                (\<lparr>req_verb = HttpPatch,
                  req_url = ''http://sta/v1.1/Things('' @ [apostrophe] @ ''x7'' @ [apostrophe]
                              @ '')'',
                  req_data = Some ''{@iot.id}''\<rparr>, Inr (plain 404))]
        \<and> length xs \<le> length [iot_item (PyInt 1), iot_item (PyStr ''x7''), iot_item (PyInt 2)]
        \<and> xs \<noteq> [] \<and> answered (\<lambda>r. \<not> ok r) (last xs)
        \<and> (\<forall>x\<in>set (butlast xs). answered ok x))
   \<and> fst (upsert_collection_items demo_env demo_backend ''a.Things''
          [iot_item (PyInt 1), iot_item (PyStr ''x7'')] ''POST''
          (fresh [Inr (plain 201), Inr (plain 201)])) = Inr True
   \<and> sent (snd (upsert_collection_items demo_env demo_backend ''a.Things''
          [iot_item (PyInt 1), iot_item (PyStr ''x7'')] ''POST''
          (fresh [Inr (plain 201), Inr (plain 201)])))
       = [(\<lparr>req_verb = HttpPost, req_url = ''http://sta/v1.1/Things'',
            req_data = Some ''{@iot.id}''\<rparr>, Inr (plain 201)),
          (\<lparr>req_verb = HttpPost, req_url = ''http://sta/v1.1/Things'',
            req_data = Some ''{@iot.id}''\<rparr>, Inr (plain 201))]
   \<and> fst (upsert_collection_items demo_env demo_backend ''a.Things''
          [iot_item (PyInt 1), iot_item (PyStr ''x7'')] ''DELETE''
          (fresh [Inr (plain 200), Inr (plain 500)])) = Inr False
   \<and> sent (snd (upsert_collection_items demo_env demo_backend ''a.Things''
          [iot_item (PyInt 1), iot_item (PyStr ''x7'')] ''DELETE''
          (fresh [Inr (plain 200), Inr (plain 500)])))
       = [(\<lparr>req_verb = HttpDelete, req_url = ''http://sta/v1.1/Things(1)'',
            req_data = None\<rparr>, Inr (plain 200)),
          (\<lparr>req_verb = HttpDelete, req_url = ''http://sta/v1.1/Things(x7)'',
            req_data = None\<rparr>, Inr (plain 500))]
   \<and> fst (upsert_collection_items demo_env demo_backend ''a.Things''
          [iot_item (PyInt 1), iot_item (PyStr ''x7'')] ''PATCH''
          (fresh [Inr (plain 200), Inr (plain 200)])) = Inr True
   \<and> sent (snd (upsert_collection_items demo_env demo_backend ''a.Things''
          [iot_item (PyInt 1), iot_item (PyStr ''x7'')] ''PATCH''
          (fresh [Inr (plain 200), Inr (plain 200)])))
       = [(\<lparr>req_verb = HttpPatch,
            req_url = ''http://sta/v1.1/Things('' @ [apostrophe] @ ''1'' @ [apostrophe] @ '')'',
            req_data = Some ''{@iot.id}''\<rparr>, Inr (plain 200)),
          (\<lparr>req_verb = HttpPatch,
            req_url = ''http://sta/v1.1/Things('' @ [apostrophe] @ ''x7'' @ [apostrophe] @ '')'',
            req_data = Some ''{@iot.id}''\<rparr>, Inr (plain 200))]"
proof -
  let ?items = "[iot_item (PyInt 1), iot_item (PyStr ''x7''), iot_item (PyInt 2)]"
  let ?two = "[iot_item (PyInt 1), iot_item (PyStr ''x7'')]"
  let ?st = "fresh [Inr (plain 200), Inr (plain 404), Inr (plain 200)]
               :: ((string + unit response) list, unit) session"
  let ?calls = "[(\<lparr>req_verb = HttpPatch,
                  req_url = ''http://sta/v1.1/Things('' @ [apostrophe] @ ''1'' @ [apostrophe]
                              @ '')'',
                  req_data = Some ''{@iot.id}''\<rparr>, Inr (plain 200)),
                (\<lparr>req_verb = HttpPatch,
                  req_url = ''http://sta/v1.1/Things('' @ [apostrophe] @ ''x7'' @ [apostrophe]
                              @ '')'',
                  req_data = Some ''{@iot.id}''\<rparr>, Inr (plain 404))]"
  let ?st' = "\<lparr>world = [Inr (plain 200)], sent = ?calls, logged = []\<rparr>"
  have sta: "sta_id demo_env demo_backend ''a.Things'' = ''http://sta/v1.1/Things''"
    by (simp add: sta_id_def demo_env_def demo_backend_def)
  have svc: "http demo_env = scripted" "to_json demo_env = keys_json"
    by (simp_all add: demo_env_def)
  have ids: "map (\<lambda>entity. py_getitem entity ''@iot.id'') ?two = map Inr [PyInt 1, PyStr ''x7'']"
    by (simp add: iot_item_def py_getitem_iot_id)
  have segs: "map (py_format demo_env) [PyInt 1, PyStr ''x7''] = map Inr [''1'', ''x7'']"
    by (simp add: py_format_small py_format_PyStr)
  have bodies: "map (to_json demo_env) ?two = map Inr [''{@iot.id}'', ''{@iot.id}'']"
    by (simp add: svc keys_json_def iot_item_def)
  have run: "upsert_collection_items demo_env demo_backend ''a.Things'' ?items ''PATCH'' ?st
               = (Inr False, ?st')"
    by (simp add: upsert_collection_items_def sta upsert_request_def iot_item_def
          py_getitem_iot_id svc keys_json_def py_format_small py_format_PyStr http_call_def
          scripted_def fresh_def ok_def reply_def plain_def)
  from upsert_dispatch [THEN conjunct1, rule_format, OF run] obtain xs where
    xs: "sent ?st' = sent ?st @ xs" "length xs \<le> length ?items"
      "xs \<noteq> [] \<and> answered (\<lambda>r. \<not> ok r) (last xs)
               \<and> (\<forall>x\<in>set (butlast xs). answered ok x)"
    by auto
  from xs(1) have "xs = ?calls" by (simp add: fresh_def)
  with xs(2,3) have trace: "\<exists>xs. xs = ?calls \<and> length xs \<le> length ?items
        \<and> xs \<noteq> [] \<and> answered (\<lambda>r. \<not> ok r) (last xs)
        \<and> (\<forall>x\<in>set (butlast xs). answered ok x)"
    by blast
  have post: "fst (upsert_collection_items demo_env demo_backend ''a.Things'' ?two ''POST''
                    (fresh [Inr (plain 201), Inr (plain 201)])) = Inr True
     \<and> sent (snd (upsert_collection_items demo_env demo_backend ''a.Things'' ?two ''POST''
                    (fresh [Inr (plain 201), Inr (plain 201)])))
       = [(\<lparr>req_verb = HttpPost, req_url = ''http://sta/v1.1/Things'',
            req_data = Some ''{@iot.id}''\<rparr>, Inr (plain 201)),
          (\<lparr>req_verb = HttpPost, req_url = ''http://sta/v1.1/Things'',
            req_data = Some ''{@iot.id}''\<rparr>, Inr (plain 201))]"
    using upsert_dispatch [THEN conjunct2, THEN conjunct1, rule_format,
        OF conjI [OF bodies refl], of demo_backend "''a.Things''"
          "fresh [Inr (plain 201), Inr (plain 201)]"]
    by (simp add: sta svc scripted_def fresh_def answered_def ok_def plain_def reply_def)
  have delete: "fst (upsert_collection_items demo_env demo_backend ''a.Things'' ?two ''DELETE''
                    (fresh [Inr (plain 200), Inr (plain 500)])) = Inr False
     \<and> sent (snd (upsert_collection_items demo_env demo_backend ''a.Things'' ?two ''DELETE''
                    (fresh [Inr (plain 200), Inr (plain 500)])))
       = [(\<lparr>req_verb = HttpDelete, req_url = ''http://sta/v1.1/Things(1)'',
            req_data = None\<rparr>, Inr (plain 200)),
          (\<lparr>req_verb = HttpDelete, req_url = ''http://sta/v1.1/Things(x7)'',
            req_data = None\<rparr>, Inr (plain 500))]"
    using upsert_dispatch [THEN conjunct2, THEN conjunct2, THEN conjunct2, rule_format,
        OF conjI [OF ids conjI [OF segs refl]], of demo_backend "''a.Things''"
          "fresh [Inr (plain 200), Inr (plain 500)]"]
    by (simp add: sta svc scripted_def fresh_def answered_def ok_def plain_def reply_def)
  have patch: "fst (upsert_collection_items demo_env demo_backend ''a.Things'' ?two ''PATCH''
                    (fresh [Inr (plain 200), Inr (plain 200)])) = Inr True
     \<and> sent (snd (upsert_collection_items demo_env demo_backend ''a.Things'' ?two ''PATCH''
                    (fresh [Inr (plain 200), Inr (plain 200)])))
       = [(\<lparr>req_verb = HttpPatch,
            req_url = ''http://sta/v1.1/Things('' @ [apostrophe] @ ''1'' @ [apostrophe] @ '')'',
            req_data = Some ''{@iot.id}''\<rparr>, Inr (plain 200)),
          (\<lparr>req_verb = HttpPatch,
            req_url = ''http://sta/v1.1/Things('' @ [apostrophe] @ ''x7'' @ [apostrophe] @ '')'',
            req_data = Some ''{@iot.id}''\<rparr>, Inr (plain 200))]"
    using upsert_dispatch [THEN conjunct2, THEN conjunct2, THEN conjunct1, rule_format,
        OF conjI [OF ids conjI [OF segs conjI [OF bodies refl]]], of demo_backend "''a.Things''"
          "fresh [Inr (plain 200), Inr (plain 200)]"]
    by (simp add: sta svc scripted_def fresh_def answered_def ok_def plain_def reply_def)
  from run trace post delete patch show ?thesis by (intro conjI) simp_all
qed

text \<open>
  C3, as stated, says that an unsupported method raises \<^verbatim>\<open>ValueError\<close> for every list
  of items. With the empty list it does not: the call with method \<^verbatim>\<open>PUT\<close> returns
  \<^verbatim>\<open>True\<close>.
\<close>

theorem upsert_unsupported_method_empty_batch:
  "fst (upsert_collection_items demo_env demo_backend ''x.Datastreams'' [] ''PUT'' (fresh []))
     = Inr True"
  by (simp add: upsert_collection_items_def)

text \<open>
  C3, amended. For every collection identifier and every list of items that is not
  empty, \<^verbatim>\<open>upsert_collection_items\<close> with a method other than \<^verbatim>\<open>POST\<close>, \<^verbatim>\<open>PATCH\<close>
  and \<^verbatim>\<open>DELETE\<close> raises \<^verbatim>\<open>ValueError\<close> at the first item, before any HTTP call.
\<close>

theorem upsert_unsupported_method:
  assumes "method \<noteq> ''POST''" "method \<noteq> ''PATCH''" "method \<noteq> ''DELETE''" "items \<noteq> []"
  shows "upsert_collection_items E self collection_id items method st
           = (Inl (ValueError (''Unsupported method: '' @ method)), st)"
proof -
  obtain entity rest where "items = entity # rest"
    using assms(4) by (cases items) auto
  then show ?thesis
    using assms(1-3) by (simp add: upsert_collection_items_def upsert_request_def)
qed

theorem upsert_unsupported_method_witness:
  "''PUT'' \<noteq> ''POST'' \<and> ''PUT'' \<noteq> ''PATCH'' \<and> ''PUT'' \<noteq> ''DELETE''
   \<and> [iot_item (PyInt 1)] \<noteq> []
   \<and> upsert_collection_items demo_env demo_backend ''x.Things'' [iot_item (PyInt 1)] ''PUT''
        (fresh [Inr (plain 200)])
       = (Inl (ValueError ''Unsupported method: PUT''), fresh [Inr (plain 200)])"
  using upsert_unsupported_method [of "''PUT''" "[iot_item (PyInt 1)]" demo_env demo_backend
      "''x.Things''" "fresh [Inr (plain 200)]"]
  by simp



text \<open>
  C5, as stated, says that every identifier made of digits only goes into the path as a
  number, without quotes. Under the interpreter's default limit of 4300 digits the
  identifier of 4301 zeros does not: \<^verbatim>\<open>int\<close> raises \<^verbatim>\<open>ValueError\<close>, and line 143 puts the
  identifier between single quotes.
\<close>

theorem delete_collection_item_long_digits_quoted:
  "list_all is_digit (replicate 4301 CHR ''0'')
   \<and> map fst (sent (snd (delete_collection_item demo_env demo_backend ''a.Things''
                          (replicate 4301 CHR ''0'') (fresh []))))
      = [\<lparr>req_verb = HttpDelete,
          req_url = ''http://sta/v1.1/Things('' @ [apostrophe] @ replicate 4301 CHR ''0''
                      @ [apostrophe] @ '')'',
          req_data = None\<rparr>]"
proof -
  have sta: "sta_id demo_env demo_backend ''a.Things'' = ''http://sta/v1.1/Things''"
    by (simp add: sta_id_def demo_env_def demo_backend_def)
  have L: "max_str_digits demo_env = 4300"
    by (simp add: demo_env_def)
  have d: "is_digit CHR ''0''" by (simp add: is_digit_def)
  have "py_int 4300 (replicate 4301 CHR ''0'') = None"
    using py_int_digits [of "replicate 4301 CHR ''0''" 4300] d
    by (simp add: limit_exceeded_def)
  then show ?thesis
    using d
    by (simp add: delete_collection_item_request L sta delete_request_def fresh_def
          list_all_iff)
qed

text \<open>
  C5, amended. The path of the DELETE that \<^verbatim>\<open>delete_collection_item\<close> sends has the
  identifier coerced to a number, written in decimal and without quotes, exactly when
  \<^verbatim>\<open>int\<close> accepts the identifier: decimal digits, single underscores allowed between
  digits, after at most one sign and between white space, with no more digits than the
  interpreter's limit on integer strings; every other identifier is put between single
  quotes. So an identifier of digits only goes in as the number it denotes when it has no
  more digits than the limit, and between quotes when it has more.
\<close>

theorem delete_collection_item_path:
  "(\<forall>n. int_literal (max_str_digits E) item_id n \<longrightarrow>
      map fst (sent (snd (delete_collection_item E self collection_id item_id st)))
        = map fst (sent st)
            @ [\<lparr>req_verb = HttpDelete,
                 req_url = sta_id E self collection_id @ ''('' @ py_str_int n @ '')'',
                 req_data = None\<rparr>])
   \<and> ((\<forall>n. \<not> int_literal (max_str_digits E) item_id n) \<longrightarrow>
      map fst (sent (snd (delete_collection_item E self collection_id item_id st)))
        = map fst (sent st)
            @ [\<lparr>req_verb = HttpDelete,
                 req_url = sta_id E self collection_id
                             @ ''('' @ [apostrophe] @ item_id @ [apostrophe] @ '')'',
                 req_data = None\<rparr>])
   \<and> (item_id \<noteq> [] \<and> (\<forall>c\<in>set item_id. is_digit c)
        \<and> \<not> limit_exceeded (max_str_digits E) (length item_id) \<longrightarrow>
      map fst (sent (snd (delete_collection_item E self collection_id item_id st)))
        = map fst (sent st)
            @ [\<lparr>req_verb = HttpDelete,
                 req_url = sta_id E self collection_id
                             @ ''('' @ py_str_int (int (decimal_value item_id)) @ '')'',
                 req_data = None\<rparr>])
   \<and> (item_id \<noteq> [] \<and> (\<forall>c\<in>set item_id. is_digit c)
        \<and> limit_exceeded (max_str_digits E) (length item_id) \<longrightarrow>
      map fst (sent (snd (delete_collection_item E self collection_id item_id st)))
        = map fst (sent st)
            @ [\<lparr>req_verb = HttpDelete,
                 req_url = sta_id E self collection_id
                             @ ''('' @ [apostrophe] @ item_id @ [apostrophe] @ '')'',
                 req_data = None\<rparr>])"
  (is "?accepted \<and> ?rejected \<and> ?short \<and> ?long")
proof -
  have a: ?accepted
    by (simp add: py_int_iff [symmetric] delete_collection_item_request delete_request_def)
  have r: ?rejected
    by (simp add: py_int_None_iff [symmetric] delete_collection_item_request
          delete_request_def)
  have s: ?short
    by (simp add: py_int_digits delete_collection_item_request delete_request_def)
  have l: ?long
    by (simp add: py_int_digits delete_collection_item_request delete_request_def)
  show ?thesis by (rule conjI [OF a conjI [OF r conjI [OF s l]]])
qed

theorem delete_collection_item_path_witness:
  "map fst (sent (snd (delete_collection_item demo_env demo_backend ''a.Things'' ''007''
                         (fresh []))))
     = [\<lparr>req_verb = HttpDelete, req_url = ''http://sta/v1.1/Things(7)'', req_data = None\<rparr>]
   \<and> map fst (sent (snd (delete_collection_item demo_env demo_backend ''a.Things'' ''x7''
                         (fresh []))))
     = [\<lparr>req_verb = HttpDelete,
          req_url = ''http://sta/v1.1/Things('' @ [apostrophe] @ ''x7'' @ [apostrophe] @ '')'',
          req_data = None\<rparr>]
   \<and> int_literal (max_str_digits demo_env) '' -1_0 '' (- 10)
   \<and> map fst (sent (snd (delete_collection_item demo_env demo_backend ''a.Things'' '' -1_0 ''
                         (fresh []))))
     = [\<lparr>req_verb = HttpDelete, req_url = ''http://sta/v1.1/Things(-10)'', req_data = None\<rparr>]
   \<and> map fst (sent (snd (delete_collection_item demo_env demo_backend ''a.Things''
                          (replicate 4301 CHR ''7'') (fresh []))))
      = [\<lparr>req_verb = HttpDelete,
          req_url = ''http://sta/v1.1/Things('' @ [apostrophe] @ replicate 4301 CHR ''7''
                      @ [apostrophe] @ '')'',
          req_data = None\<rparr>]"
proof -
  have sta: "sta_id demo_env demo_backend ''a.Things'' = ''http://sta/v1.1/Things''"
    by (simp add: sta_id_def demo_env_def demo_backend_def)
  have L: "max_str_digits demo_env = 4300"
    by (simp add: demo_env_def)
  have digits: "''007'' \<noteq> [] \<and> (\<forall>c\<in>set ''007''. is_digit c)
      \<and> \<not> limit_exceeded (max_str_digits demo_env) (length ''007'')"
    by (simp add: is_digit_def limit_exceeded_def L)
  have seven: "py_str_int (int (decimal_value ''007'')) = ''7''"
    by (simp add: decimal_value_def digit_val_def py_str_int_def py_str_nat.simps
          digit_char_def char_of_eq_iff)
  have rejected: "\<forall>n. \<not> int_literal (max_str_digits demo_env) ''x7'' n"
    using py_int_None_other_char [of "CHR ''x''" "''x7''" "max_str_digits demo_env"]
    by (simp add: py_int_None_iff is_digit_def is_space_def)
  have lit: "int_literal (max_str_digits demo_env) '' -1_0 '' (- 10)"
    unfolding int_literal_def
    by (rule exI [of _ "'' ''"], rule exI [of _ "''-''"], rule exI [of _ "''1_0''"],
        rule exI [of _ "'' ''"])
       (simp add: is_space_def digit_groups_def is_digit_def limit_exceeded_def L
          decimal_value_def digit_val_def)
  have ten: "py_str_int (- 10) = ''-10''"
    by (simp add: py_str_int_def py_str_nat.simps digit_char_def char_of_eq_iff)
  have long: "replicate 4301 CHR ''7'' \<noteq> [] \<and> (\<forall>c\<in>set (replicate 4301 CHR ''7''). is_digit c)
      \<and> limit_exceeded (max_str_digits demo_env) (length (replicate 4301 CHR ''7''))"
    by (simp add: is_digit_def limit_exceeded_def L)
  have a: "map fst (sent (snd (delete_collection_item demo_env demo_backend ''a.Things'' ''007''
                         (fresh []))))
     = [\<lparr>req_verb = HttpDelete, req_url = ''http://sta/v1.1/Things(7)'', req_data = None\<rparr>]"
    using delete_collection_item_path [of demo_env "''007''" demo_backend "''a.Things''" "fresh []", THEN conjunct2, THEN conjunct2, THEN conjunct1, rule_format,
        OF digits]
    by (simp add: sta seven fresh_def)
  have b: "map fst (sent (snd (delete_collection_item demo_env demo_backend ''a.Things'' ''x7''
                         (fresh []))))
     = [\<lparr>req_verb = HttpDelete,
          req_url = ''http://sta/v1.1/Things('' @ [apostrophe] @ ''x7'' @ [apostrophe] @ '')'',
          req_data = None\<rparr>]"
    using delete_collection_item_path [of demo_env "''x7''" demo_backend "''a.Things''" "fresh []", THEN conjunct2, THEN conjunct1, THEN mp, OF rejected]
    by (simp add: sta fresh_def)
  have c: "map fst (sent (snd (delete_collection_item demo_env demo_backend ''a.Things''
                         '' -1_0 '' (fresh []))))
     = [\<lparr>req_verb = HttpDelete, req_url = ''http://sta/v1.1/Things(-10)'', req_data = None\<rparr>]"
    using delete_collection_item_path [of demo_env "'' -1_0 ''" demo_backend "''a.Things''" "fresh []", THEN conjunct1, rule_format, OF lit]
    by (simp add: sta ten fresh_def)
  have d: "map fst (sent (snd (delete_collection_item demo_env demo_backend ''a.Things''
                          (replicate 4301 CHR ''7'') (fresh []))))
      = [\<lparr>req_verb = HttpDelete,
          req_url = ''http://sta/v1.1/Things('' @ [apostrophe] @ replicate 4301 CHR ''7''
                      @ [apostrophe] @ '')'',
          req_data = None\<rparr>]"
    using delete_collection_item_path [of demo_env "replicate 4301 CHR ''7''" demo_backend "''a.Things''" "fresh []", THEN conjunct2, THEN conjunct2, THEN conjunct2,
        rule_format, OF long]
    by (simp add: sta fresh_def)
  from a b lit c d show ?thesis by (intro conjI)
qed

text \<open>
  Two readings of the same: an identifier that is the decimal text \<^verbatim>\<open>str\<close> gives of an
  integer goes into the path as it stands, and an identifier with a character that is
  neither a digit, nor white space, nor a sign, nor an underscore goes into the path between
  quotes.
\<close>

lemma delete_collection_item_canonical:
  assumes "py_str_int_limited (max_str_digits E) n = Inr t"
  shows "map fst (sent (snd (delete_collection_item E self collection_id t st)))
     = map fst (sent st) @ [delete_request (sta_id E self collection_id) t]"
proof -
  have "t = py_str_int n"
    using assms by (auto simp: py_str_int_limited_def split: if_splits)
  with py_int_py_str_int [OF assms] show ?thesis
    by (simp add: delete_collection_item_request)
qed

lemma delete_collection_item_quotes_other:
  assumes "c \<in> set item_id" "\<not> is_digit c" "\<not> is_space c"
    and "c \<noteq> CHR ''+''" "c \<noteq> CHR ''-''" "c \<noteq> CHR ''_''"
  shows "map fst (sent (snd (delete_collection_item E self collection_id item_id st)))
     = map fst (sent st)
         @ [delete_request (sta_id E self collection_id)
              ([apostrophe] @ item_id @ [apostrophe])]"
  using py_int_None_other_char [OF assms, of "max_str_digits E"]
  by (simp add: delete_collection_item_request)

text \<open>
  C6. A collection identifier with a dot in it is some prefix, a dot, and a last segment
  without dots; \<^verbatim>\<open>sta_id\<close> is \<^verbatim>\<open>url_join\<close> of the base URL and that last segment, and
  it stays the same whatever is put in the place of the prefix: the earlier segments have
  no part in the URL.
\<close>

theorem sta_id_last_segment:
  assumes "CHR ''.'' \<in> set collection_id"
  shows "\<exists>front entity. collection_id = front @ ''.'' @ entity \<and> CHR ''.'' \<notin> set entity
           \<and> sta_id E self collection_id = url_join E [url self, entity]
           \<and> (\<forall>other. sta_id E self (other @ ''.'' @ entity) = sta_id E self collection_id)"
proof -
  from has_last_segment [OF assms] obtain p e
    where pe: "collection_id = p @ CHR ''.'' # e" "CHR ''.'' \<notin> set e" by blast
  have "\<And>q. sta_id E self (q @ CHR ''.'' # e) = url_join E [url self, e]"
    using pe(2) by (simp add: sta_id_def last_py_split)
  then show ?thesis using pe by (intro exI [of _ p] exI [of _ e]) simp
qed

theorem sta_id_last_segment_witness:
  "CHR ''.'' \<in> set ''a.b.Things''
   \<and> (\<exists>front entity. ''a.b.Things'' = front @ ''.'' @ entity \<and> CHR ''.'' \<notin> set entity
           \<and> sta_id demo_env demo_backend ''a.b.Things''
               = url_join demo_env [url demo_backend, entity]
           \<and> (\<forall>other. sta_id demo_env demo_backend (other @ ''.'' @ entity)
                         = sta_id demo_env demo_backend ''a.b.Things''))
   \<and> sta_id demo_env demo_backend ''a.b.Things'' = ''http://sta/v1.1/Things''"
proof -
  have h: "CHR ''.'' \<in> set ''a.b.Things''" by simp
  have v: "sta_id demo_env demo_backend ''a.b.Things'' = ''http://sta/v1.1/Things''"
    by (simp add: sta_id_def demo_env_def demo_backend_def)
  from sta_id_last_segment [OF h, of demo_env demo_backend] h v show ?thesis by blast
qed

text \<open>
  C7. For every collection identifier, \<^verbatim>\<open>add_collection\<close> raises
  \<^verbatim>\<open>NotImplementedError\<close>: it returns no value, and the record of HTTP calls is the
  one it started with.
\<close>

theorem add_collection_not_implemented:
  "add_collection E self collection_id st = (Inl NotImplementedError, st)
   \<and> (\<forall>v. fst (add_collection E self collection_id st) \<noteq> Inr v)
   \<and> sent (snd (add_collection E self collection_id st)) = sent st"
  by (simp add: add_collection_def)

text \<open>
  C8. For every collection identifier, \<^verbatim>\<open>has_collection\<close> returns \<^verbatim>\<open>True\<close> and makes
  no HTTP call; nothing is asked of the service, so the answer does not depend on the
  collection being there.
\<close>

theorem has_collection_true:
  "has_collection E self collection_id st = (Inr True, st)
   \<and> sent (snd (has_collection E self collection_id st)) = sent st"
  by (simp add: has_collection_def)

text \<open>
  C9. With an empty list of items, \<^verbatim>\<open>upsert_collection_items\<close> returns \<^verbatim>\<open>True\<close> for
  every method string, the unsupported ones included, raises nothing and makes no call:
  the method is looked at only inside the loop.
\<close>

theorem upsert_empty_batch:
  "upsert_collection_items E self collection_id [] method st = (Inr True, st)"
  by (simp add: upsert_collection_items_def)

text \<open>
  C10. Whatever \<^verbatim>\<open>upsert_collection_items\<close> ends with, every call it has made with the
  method \<^verbatim>\<open>PATCH\<close> has the item's \<^verbatim>\<open>@iot.id\<close> between single quotes inside the
  parentheses of its URL, and every call it has made with the method \<^verbatim>\<open>DELETE\<close> has
  the \<^verbatim>\<open>@iot.id\<close> there as \<^verbatim>\<open>str\<close> gives it, with no quotes added; the identifier
  being an integer or a string makes no difference to either.
\<close>

theorem upsert_quoting:
  assumes "upsert_collection_items E self collection_id items method st = (res, st')"
  shows "\<exists>xs. sent st' = sent st @ xs \<and> length xs \<le> length items
      \<and> (method = ''PATCH'' \<longrightarrow>
           (\<forall>k<length xs. \<exists>i seg. py_getitem (items ! k) ''@iot.id'' = Inr i
              \<and> py_format E i = Inr seg
              \<and> req_verb (fst (xs ! k)) = HttpPatch
              \<and> req_url (fst (xs ! k))
                  = sta_id E self collection_id
                      @ ''('' @ [apostrophe] @ seg @ [apostrophe] @ '')''))
      \<and> (method = ''DELETE'' \<longrightarrow>
           (\<forall>k<length xs. \<exists>i seg. py_getitem (items ! k) ''@iot.id'' = Inr i
              \<and> py_format E i = Inr seg
              \<and> req_verb (fst (xs ! k)) = HttpDelete
              \<and> req_url (fst (xs ! k))
                  = sta_id E self collection_id @ ''('' @ seg @ '')''))"
proof -
  let ?sta = "sta_id E self collection_id"
  have run: "upsert_each E ?sta method items st = (res, st')"
    using assms by (simp add: upsert_collection_items_def)
  from upsert_each_trace [OF run] obtain xs where
    xs: "sent st' = sent st @ xs" "length xs \<le> length items"
      "list_all2 (\<lambda>item x. upsert_request E ?sta method item = Inr (fst x))
         (take (length xs) items) xs"
    by blast
  have rq: "\<And>k. k < length xs \<Longrightarrow>
              upsert_request E ?sta method (items ! k) = Inr (fst (xs ! k))"
    by (rule list_all2_take_nth [OF xs(3) xs(2)])
  have patch: "method = ''PATCH'' \<longrightarrow>
           (\<forall>k<length xs. \<exists>i seg. py_getitem (items ! k) ''@iot.id'' = Inr i
              \<and> py_format E i = Inr seg
              \<and> req_verb (fst (xs ! k)) = HttpPatch
              \<and> req_url (fst (xs ! k))
                  = ?sta @ ''('' @ [apostrophe] @ seg @ [apostrophe] @ '')'')"
  proof (intro impI allI)
    fix k assume "method = ''PATCH''" "k < length xs"
    with upsert_request_cases [OF rq [OF this(2)]]
    show "\<exists>i seg. py_getitem (items ! k) ''@iot.id'' = Inr i
              \<and> py_format E i = Inr seg
              \<and> req_verb (fst (xs ! k)) = HttpPatch
              \<and> req_url (fst (xs ! k))
                  = ?sta @ ''('' @ [apostrophe] @ seg @ [apostrophe] @ '')''"
      by auto
  qed
  have delete: "method = ''DELETE'' \<longrightarrow>
           (\<forall>k<length xs. \<exists>i seg. py_getitem (items ! k) ''@iot.id'' = Inr i
              \<and> py_format E i = Inr seg
              \<and> req_verb (fst (xs ! k)) = HttpDelete
              \<and> req_url (fst (xs ! k)) = ?sta @ ''('' @ seg @ '')'')"
  proof (intro impI allI)
    fix k assume "method = ''DELETE''" "k < length xs"
    with upsert_request_cases [OF rq [OF this(2)]]
    show "\<exists>i seg. py_getitem (items ! k) ''@iot.id'' = Inr i
              \<and> py_format E i = Inr seg
              \<and> req_verb (fst (xs ! k)) = HttpDelete
              \<and> req_url (fst (xs ! k)) = ?sta @ ''('' @ seg @ '')''"
      by auto
  qed
  from xs(1,2) patch delete show ?thesis
    by (intro exI [of _ xs]) simp
qed

theorem upsert_quoting_witness:
  "(\<exists>st'. upsert_collection_items demo_env demo_backend ''a.Things''
            [iot_item (PyInt 1)] ''PATCH'' (fresh [Inr (plain 200)]) = (Inr True, st')
        \<and> map (\<lambda>x. req_url (fst x)) (sent st')
            = [''http://sta/v1.1/Things('' @ [apostrophe] @ ''1'' @ [apostrophe] @ '')''])
   \<and> (\<exists>st'. upsert_collection_items demo_env demo_backend ''a.Things''
            [iot_item (PyStr ''x7'')] ''DELETE'' (fresh [Inr (plain 200)]) = (Inr True, st')
        \<and> map (\<lambda>x. req_url (fst x)) (sent st') = [''http://sta/v1.1/Things(x7)''])"
proof -
  let ?st = "fresh [Inr (plain 200)] :: ((string + unit response) list, unit) session"
  have sta: "sta_id demo_env demo_backend ''a.Things'' = ''http://sta/v1.1/Things''"
    by (simp add: sta_id_def demo_env_def demo_backend_def)
  have svc: "http demo_env = scripted" "to_json demo_env = keys_json"
    by (simp_all add: demo_env_def)
  have fmt: "py_format demo_env (PyInt 1) = Inr ''1''"
    "py_format demo_env (PyStr ''x7'') = Inr ''x7''"
    by (simp_all add: py_format_small py_format_PyStr)
  obtain p where p: "upsert_collection_items demo_env demo_backend ''a.Things''
            [iot_item (PyInt 1)] ''PATCH'' ?st = (Inr True, p)"
    by (simp add: upsert_collection_items_def sta upsert_request_def iot_item_def
          py_getitem_iot_id svc keys_json_def fmt http_call_def scripted_def fresh_def
          ok_def reply_def plain_def)
  obtain d where d: "upsert_collection_items demo_env demo_backend ''a.Things''
            [iot_item (PyStr ''x7'')] ''DELETE'' ?st = (Inr True, d)"
    by (simp add: upsert_collection_items_def sta upsert_request_def iot_item_def
          py_getitem_iot_id svc keys_json_def fmt http_call_def scripted_def fresh_def
          ok_def reply_def plain_def)
  from upsert_quoting [OF p] obtain xs where
    xs: "sent p = sent ?st @ xs" "length xs \<le> length [iot_item (PyInt 1)]"
      "\<forall>k<length xs. \<exists>i seg. py_getitem ([iot_item (PyInt 1)] ! k) ''@iot.id'' = Inr i
              \<and> py_format demo_env i = Inr seg
              \<and> req_verb (fst (xs ! k)) = HttpPatch
              \<and> req_url (fst (xs ! k))
                  = sta_id demo_env demo_backend ''a.Things''
                      @ ''('' @ [apostrophe] @ seg @ [apostrophe] @ '')''"
    by auto
  from upsert_quoting [OF d] obtain ys where
    ys: "sent d = sent ?st @ ys" "length ys \<le> length [iot_item (PyStr ''x7'')]"
      "\<forall>k<length ys. \<exists>i seg. py_getitem ([iot_item (PyStr ''x7'')] ! k) ''@iot.id'' = Inr i
              \<and> py_format demo_env i = Inr seg
              \<and> req_verb (fst (ys ! k)) = HttpDelete
              \<and> req_url (fst (ys ! k))
                  = sta_id demo_env demo_backend ''a.Things'' @ ''('' @ seg @ '')''"
    by auto
  have lp: "length (sent p) = 1"
    using p
    by (auto simp add: upsert_collection_items_def sta upsert_request_def iot_item_def
          py_getitem_iot_id svc keys_json_def fmt http_call_def scripted_def fresh_def
          ok_def reply_def plain_def)
  have ld: "length (sent d) = 1"
    using d
    by (auto simp add: upsert_collection_items_def sta upsert_request_def iot_item_def
          py_getitem_iot_id svc keys_json_def fmt http_call_def scripted_def fresh_def
          ok_def reply_def plain_def delete_request_def)
  from lp xs(1) obtain x where x: "xs = [x]"
    by (cases xs) (auto simp: fresh_def)
  from ld ys(1) obtain y where y: "ys = [y]"
    by (cases ys) (auto simp: fresh_def)
  from xs(3) x have "req_url (fst x)
      = ''http://sta/v1.1/Things('' @ [apostrophe] @ ''1'' @ [apostrophe] @ '')''"
    by (simp add: iot_item_def py_getitem_iot_id sta fmt)
  with xs(1) x have a: "map (\<lambda>x. req_url (fst x)) (sent p)
            = [''http://sta/v1.1/Things('' @ [apostrophe] @ ''1'' @ [apostrophe] @ '')'']"
    by (simp add: fresh_def)
  from ys(3) y have "req_url (fst y) = ''http://sta/v1.1/Things(x7)''"
    by (simp add: iot_item_def py_getitem_iot_id sta fmt)
  with ys(1) y have b: "map (\<lambda>x. req_url (fst x)) (sent d) = [''http://sta/v1.1/Things(x7)'']"
    by (simp add: fresh_def)
  have patched: "\<exists>st'. upsert_collection_items demo_env demo_backend ''a.Things''
            [iot_item (PyInt 1)] ''PATCH'' ?st = (Inr True, st')
        \<and> map (\<lambda>x. req_url (fst x)) (sent st')
            = [''http://sta/v1.1/Things('' @ [apostrophe] @ ''1'' @ [apostrophe] @ '')'']"
    using p a by (intro exI [of _ p] conjI)
  have deleted: "\<exists>st'. upsert_collection_items demo_env demo_backend ''a.Things''
            [iot_item (PyStr ''x7'')] ''DELETE'' ?st = (Inr True, st')
        \<and> map (\<lambda>x. req_url (fst x)) (sent st') = [''http://sta/v1.1/Things(x7)'']"
    using d b by (intro exI [of _ d] conjI)
  from patched deleted show ?thesis by (intro conjI)
qed

end
